theory Spec2Isabelle
  imports Main "HOL-Library.Word"
begin

unbundle bit_operations_syntax

section \<open>Memory model\<close>

text \<open>
  The runtime is C code working on heap objects through pointers. A pointer is an
  address; address 0 is the null pointer. Memory is a family of typed stores, one per
  struct or array type, each a partial map from the address of an object to its value.
  Reading through a null pointer, through an address that holds no object of the
  expected type, or beyond the end of an array is undefined behaviour in C; the model
  makes it a \<open>fault\<close> value, so every function that dereferences returns
  \<open>fault + result\<close>.
\<close>

type_synonym addr = nat

abbreviation NULL :: addr where
  "NULL \<equiv> 0"

datatype fault = NullDeref | InvalidDeref | OutOfBounds

definition deref :: "(addr \<rightharpoonup> 'a) \<Rightarrow> addr \<Rightarrow> fault + 'a" where
  "deref m p =
     (if p = NULL then Inl NullDeref
      else case m p of None \<Rightarrow> Inl InvalidDeref | Some v \<Rightarrow> Inr v)"

definition array_get :: "(addr \<rightharpoonup> 'a list) \<Rightarrow> addr \<Rightarrow> nat \<Rightarrow> fault + 'a" where
  "array_get m p i =
     (case deref m p of
        Inl f \<Rightarrow> Inl f
      | Inr xs \<Rightarrow> if i < length xs then Inr (xs ! i) else Inl OutOfBounds)"

definition array_set ::
  "(addr \<rightharpoonup> 'a list) \<Rightarrow> addr \<Rightarrow> nat \<Rightarrow> 'a \<Rightarrow> fault + (addr \<rightharpoonup> 'a list)" where
  "array_set m p i v =
     (case deref m p of
        Inl f \<Rightarrow> Inl f
      | Inr xs \<Rightarrow> if i < length xs then Inr (m(p \<mapsto> xs[i := v])) else Inl OutOfBounds)"

section \<open>Structures of signal.h\<close>

text \<open>Configuration constants, flags and error codes of signal.h.\<close>

definition MAX_PAYLOAD_SIZE :: "32 word" where
  "MAX_PAYLOAD_SIZE = 64 * 1024"

definition DEFAULT_HEAP_SIZE :: "64 word" where
  "DEFAULT_HEAP_SIZE = 16 * 1024 * 1024"

definition SIGNAL_FLAG_OWNS_PAYLOAD :: "16 word" where
  "SIGNAL_FLAG_OWNS_PAYLOAD = 0x0001"

definition SIGNAL_FLAG_HEAP_ALLOCATED :: "16 word" where
  "SIGNAL_FLAG_HEAP_ALLOCATED = 0x0002"

definition SIGNAL_FLAG_PROCESSED :: "16 word" where
  "SIGNAL_FLAG_PROCESSED = 0x0004"


definition QUEUE_FLAG_ACTIVE :: "32 word" where
  "QUEUE_FLAG_ACTIVE = 0x0001"

definition QUEUE_FLAG_OVERFLOW :: "32 word" where
  "QUEUE_FLAG_OVERFLOW = 0x0002"

definition SIGNAL_OK :: "32 word" where
  "SIGNAL_OK = 0"

definition SIGNAL_ERR_QUEUE_FULL :: "32 word" where
  "SIGNAL_ERR_QUEUE_FULL = 1"

definition SIGNAL_ERR_QUEUE_EMPTY :: "32 word" where
  "SIGNAL_ERR_QUEUE_EMPTY = 2"

definition SIGNAL_ERR_NULL_POINTER :: "32 word" where
  "SIGNAL_ERR_NULL_POINTER = 3"

definition SIGNAL_ERR_ALLOC_FAILED :: "32 word" where
  "SIGNAL_ERR_ALLOC_FAILED = 4"

definition SIGNAL_ERR_PAYLOAD_TOO_LARGE :: "32 word" where
  "SIGNAL_ERR_PAYLOAD_TOO_LARGE = 5"

definition SIGNAL_ERR_NO_ROUTE :: "32 word" where
  "SIGNAL_ERR_NO_ROUTE = 6"

text \<open>
  Object sizes on the LP64 x86-64 target the code is written for (it reads the cycle
  counter with \<open>rdtsc\<close>): \<open>sizeof(Signal)\<close>, \<open>sizeof(SignalQueue)\<close>,
  \<open>sizeof(FreeBlock)\<close> and the size of a pointer.
\<close>

definition sizeof_Signal :: "64 word" where
  "sizeof_Signal = 32"

definition sizeof_SignalQueue :: "64 word" where
  "sizeof_SignalQueue = 56"

definition sizeof_FreeBlock :: "64 word" where
  "sizeof_FreeBlock = 16"

definition sizeof_ptr :: "64 word" where
  "sizeof_ptr = 8"

text \<open>\<open>struct Signal\<close>. Fields whose names other structs share carry a prefix.\<close>

record Signal =
  sig_frequency_id :: "16 word"
  sig_source_agent_id :: "16 word"
  sig_flags :: "16 word"
  ref_count :: "16 word"
  payload_ptr :: addr
  payload_size :: "32 word"
  payload_capacity :: "32 word"
  timestamp :: "64 word"

text \<open>\<open>struct SignalQueue\<close>: the ring buffer is a separately allocated array of
  signal pointers, reached through \<open>buffer\<close>.\<close>

record SignalQueue =
  buffer :: addr
  q_capacity :: "32 word"
  q_mask :: "32 word"
  head :: "32 word"
  tail :: "32 word"
  q_count :: "32 word"
  total_enqueued :: "32 word"
  total_dequeued :: "32 word"
  dropped_count :: "32 word"
  owner_agent_id :: "32 word"
  q_flags :: "32 word"
  reserved :: "64 word"

text \<open>\<open>struct RoutingEntry\<close> and \<open>struct RoutingTable\<close>.\<close>

record RoutingEntry =
  re_source_agent_id :: "32 word"
  re_frequency_id :: "32 word"
  dest_count :: "32 word"
  re_flags :: "32 word"
  dest_agent_ids :: addr
  dest_queues :: addr

record RoutingTable =
  rt_entries :: addr
  rt_capacity :: "32 word"
  rt_mask :: "32 word"
  rt_entry_count :: "32 word"
  collision_count :: "32 word"

text \<open>\<open>struct FreeBlock\<close> and \<open>struct HeapState\<close>. The free list is a singly linked
  list threaded through the freed blocks; the model keeps it as the list of its blocks,
  head first, each with its address and recorded size.\<close>

record FreeBlock =
  fb_addr :: addr
  fb_size :: "64 word"

record HeapState =
  base :: addr
  current :: addr
  heap_end :: addr
  total_size :: "64 word"
  used :: "64 word"
  peak_used :: "64 word"
  free_list :: "FreeBlock list"

text \<open>\<open>struct Agent\<close> and \<open>struct AgentRegistry\<close> of signal.h.\<close>

record Agent =
  agent_id :: "32 word"
  agent_type :: "32 word"
  state_ptr :: addr
  input_queue :: addr
  dispatch_table :: addr
  ag_flags :: "32 word"
  signal_count :: "32 word"

record AgentRegistry =
  reg_agents :: addr
  reg_count :: "32 word"
  reg_capacity :: "32 word"

section \<open>Structures of dispatch.h and scheduler.h\<close>

text \<open>
  dispatch.h is not among the sources; dispatch.c fixes the fields of its two structs by
  the way it uses them. The numeric values of the flag bits and of the status codes are
  declared in the header only. The flag word of an entry is therefore kept as the set of
  flags it holds, and a status code as a value of an enumeration.
\<close>

datatype dispatch_flag = DISPATCH_FLAG_ACTIVE | DISPATCH_FLAG_HAS_GUARD

datatype dispatch_status =
    DISPATCH_OK
  | DISPATCH_ERR_NULL_POINTER
  | DISPATCH_ERR_ALLOC_FAILED
  | DISPATCH_ERR_NO_HANDLER
  | DISPATCH_ERR_GUARD_FAILED
  | DISPATCH_ERR_HANDLER_FAILED

text \<open>\<open>handler\<close>, \<open>guard\<close> and \<open>default_handler\<close> are function pointers: code
  addresses, null when absent.\<close>

record DispatchEntry =
  de_frequency_id :: "32 word"
  de_flags :: "dispatch_flag set"
  handler :: addr
  guard :: addr

record DispatchTable =
  dt_entries :: addr
  dt_entry_count :: "32 word"
  dt_capacity :: "32 word"
  default_handler :: addr
  agent_state :: addr
  dt_agent_id :: "32 word"
  lookup_count :: "32 word"
  hit_count :: "32 word"
  miss_count :: "32 word"

datatype TidalPhase = PHASE_REST | PHASE_SENSE | PHASE_ACT

text \<open>\<open>Scheduler\<close> of scheduler.h; the \<open>int\<close> fields are 32-bit words read as two's
  complement.\<close>

record Scheduler =
  registry :: addr
  routing :: addr
  current_phase :: TidalPhase
  running :: "32 word"
  empty_cycles :: "32 word"
  max_empty_cycles :: "32 word"
  cycle_count :: "64 word"
  total_signals_processed :: "64 word"
  agents_active :: "64 word"
  dispatch_errors :: "64 word"
  start_timestamp :: "64 word"
  end_timestamp :: "64 word"

section \<open>The state of the runtime\<close>

text \<open>
  One record holds everything the C code can reach: the allocator's globals
  (\<open>g_heap\<close>, \<open>g_heap_initialized\<close>), the typed stores, and the environment. The
  environment is what the code reads but does not control: the answer of the kernel to
  \<open>mmap\<close> (null for \<open>MAP_FAILED\<close>) and the successive values of the cycle counter.
  \<open>user\<close> is the memory of the application (agent states), which the runtime only
  passes around as \<open>void*\<close>.
\<close>

record 'u world =
  g_heap :: HeapState
  g_heap_initialized :: bool
  sys_mmap :: "64 word \<Rightarrow> addr"
  rdtsc :: "nat \<Rightarrow> 64 word"
  rdtsc_reads :: nat
  signals :: "addr \<rightharpoonup> Signal"
  bytes :: "addr \<rightharpoonup> 8 word list"
  queues :: "addr \<rightharpoonup> SignalQueue"
  ptr_arrays :: "addr \<rightharpoonup> addr list"
  u32_arrays :: "addr \<rightharpoonup> 32 word list"
  routing_entries :: "addr \<rightharpoonup> RoutingEntry list"
  routing_tables :: "addr \<rightharpoonup> RoutingTable"
  agents :: "addr \<rightharpoonup> Agent"
  registries :: "addr \<rightharpoonup> AgentRegistry"
  dispatch_entries :: "addr \<rightharpoonup> DispatchEntry list"
  dispatch_tables :: "addr \<rightharpoonup> DispatchTable"
  schedulers :: "addr \<rightharpoonup> Scheduler"
  user :: 'u

text \<open>\<open>get_timestamp\<close> of signal.h (and \<open>get_cpu_timestamp\<close> of scheduler.c): one
  read of the cycle counter.\<close>

definition get_timestamp :: "'u world \<Rightarrow> 64 word \<times> 'u world" where
  "get_timestamp w = (rdtsc w (rdtsc_reads w), w\<lparr>rdtsc_reads := Suc (rdtsc_reads w)\<rparr>)"

text \<open>\<open>is_power_of_two\<close> and \<open>next_power_of_two\<close> of signal.h.\<close>

definition is_power_of_two :: "32 word \<Rightarrow> bool" where
  "is_power_of_two x = (x \<noteq> 0 \<and> \<not> (x AND (x - 1) \<noteq> 0))"

definition next_power_of_two :: "32 word \<Rightarrow> 32 word" where
  "next_power_of_two x0 =
     (let x = x0 - 1;
          x = x OR drop_bit 1 x;
          x = x OR drop_bit 2 x;
          x = x OR drop_bit 4 x;
          x = x OR drop_bit 8 x;
          x = x OR drop_bit 16 x
      in x + 1)"

section \<open>memory.c: the heap\<close>

text \<open>
  When a block is handed back to the allocator its first sixteen bytes are overwritten
  with the free-list header, so whatever object lived at that address is gone:
  \<open>release\<close> removes the address from every typed store.
\<close>

definition release :: "addr \<Rightarrow> 'u world \<Rightarrow> 'u world" where
  "release p w =
     w\<lparr>signals := (signals w)(p := None),
       bytes := (bytes w)(p := None),
       queues := (queues w)(p := None),
       ptr_arrays := (ptr_arrays w)(p := None),
       u32_arrays := (u32_arrays w)(p := None),
       routing_entries := (routing_entries w)(p := None),
       routing_tables := (routing_tables w)(p := None),
       agents := (agents w)(p := None),
       registries := (registries w)(p := None),
       dispatch_entries := (dispatch_entries w)(p := None),
       dispatch_tables := (dispatch_tables w)(p := None),
       schedulers := (schedulers w)(p := None)\<rparr>"

definition heap_init :: "64 word \<Rightarrow> 'u world \<Rightarrow> 32 word \<times> 'u world" where
  "heap_init initial_size0 w =
     (if g_heap_initialized w then (1, w)
      else
        let initial_size = (if initial_size0 = 0 then DEFAULT_HEAP_SIZE else initial_size0);
            page_size = (4096 :: 64 word);
            initial_size = (initial_size + page_size - 1) AND NOT (page_size - 1);
            b = sys_mmap w initial_size
        in if b = NULL then (0, w)
           else (1, w\<lparr>g_heap :=
                        \<lparr>base = b, current = b, heap_end = b + unat initial_size,
                         total_size = initial_size, used = 0, peak_used = 0,
                         free_list = []\<rparr>,
                      g_heap_initialized := True\<rparr>))"

text \<open>The walk over the free list in \<open>heap_allocate\<close>: the first block whose size
  suffices is unlinked and returned, with the list that remains.\<close>

fun free_list_take :: "64 word \<Rightarrow> FreeBlock list \<Rightarrow> (FreeBlock \<times> FreeBlock list) option" where
  "free_list_take n [] = None"
| "free_list_take n (b # bs) =
     (if fb_size b \<ge> n then Some (b, bs)
      else case free_list_take n bs of
             None \<Rightarrow> None
           | Some (r, rest) \<Rightarrow> Some (r, b # rest))"

text \<open>
  \<open>heap_allocate\<close>. Addresses are natural numbers, so the bump pointer
  \<open>current + bytes\<close> does not wrap around: a request that would carry it to \<open>2^64\<close> or
  beyond is refused here like any other request past the end of the region, whereas
  the pointer addition of the compiled code wraps (in C it is undefined behaviour). The
  requests of the runtime itself stay far below that size: the largest is the ring of a
  mailbox, \<open>2^32\<close> pointers at most.
\<close>

definition heap_allocate :: "64 word \<Rightarrow> 'u world \<Rightarrow> addr \<times> 'u world" where
  "heap_allocate bytes0 w0 =
     (let (ok, w) = (if \<not> g_heap_initialized w0 then heap_init 0 w0 else (1, w0))
      in if ok = 0 then (NULL, w)
         else if bytes0 = 0 then (NULL, w)
         else
           let n = (bytes0 + 7) AND NOT 7;
               n = (if n < sizeof_FreeBlock then sizeof_FreeBlock else n);
               h = g_heap w
           in case free_list_take n (free_list h) of
                Some (block, rest) \<Rightarrow>
                  let u = used h + n
                  in (fb_addr block,
                      w\<lparr>g_heap := h\<lparr>free_list := rest, used := u,
                                     peak_used := (if u > peak_used h then u else peak_used h)\<rparr>\<rparr>)
              | None \<Rightarrow>
                  let ptr = current h;
                      new_current = current h + unat n
                  in if new_current > heap_end h then (NULL, w)
                     else
                       let u = used h + n
                       in (ptr,
                           w\<lparr>g_heap := h\<lparr>current := new_current, used := u,
                                          peak_used := (if u > peak_used h then u else peak_used h)\<rparr>\<rparr>))"

definition heap_free :: "addr \<Rightarrow> 64 word \<Rightarrow> 'u world \<Rightarrow> 32 word \<times> 'u world" where
  "heap_free ptr bytes0 w =
     (if ptr = NULL \<or> bytes0 = 0 then (0, w)
      else
        let n = (bytes0 + 7) AND NOT 7;
            n = (if n < sizeof_FreeBlock then sizeof_FreeBlock else n);
            w1 = release ptr w;
            h = g_heap w1
        in (0, w1\<lparr>g_heap := h\<lparr>free_list := \<lparr>fb_addr = ptr, fb_size = n\<rparr> # free_list h,
                                used := used h - n\<rparr>\<rparr>))"

section \<open>signal.c: signals\<close>

definition signal_alloc :: "'u world \<Rightarrow> addr \<times> 'u world" where
  "signal_alloc w =
     (let (sig, w1) = heap_allocate sizeof_Signal w
      in if sig = NULL then (NULL, w1)
         else
           let (ts, w2) = get_timestamp w1
           in (sig,
               w2\<lparr>signals := (signals w2)(sig \<mapsto>
                    \<lparr>sig_frequency_id = 0, sig_source_agent_id = 0,
                     sig_flags = SIGNAL_FLAG_HEAP_ALLOCATED, ref_count = 1,
                     payload_ptr = NULL, payload_size = 0, payload_capacity = 0,
                     timestamp = ts\<rparr>)\<rparr>))"

definition signal_ref :: "addr \<Rightarrow> 'u world \<Rightarrow> fault + 'u world" where
  "signal_ref sig w =
     (if sig \<noteq> NULL then
        (case deref (signals w) sig of
           Inl f \<Rightarrow> Inl f
         | Inr s \<Rightarrow> Inr (w\<lparr>signals := (signals w)(sig \<mapsto> s\<lparr>ref_count := ref_count s + 1\<rparr>)\<rparr>))
      else Inr w)"

text \<open>
  \<open>signal_free\<close>, statement by statement: the decrement (only of a positive count),
  the early return while references remain, the release of an owned payload followed by
  the write of \<open>payload_ptr\<close>, and the release of a heap-allocated header.
\<close>

definition signal_free_payload :: "addr \<Rightarrow> 'u world \<Rightarrow> fault + 'u world" where
  "signal_free_payload sig w =
     (case deref (signals w) sig of
        Inl f \<Rightarrow> Inl f
      | Inr s \<Rightarrow>
          if sig_flags s AND SIGNAL_FLAG_OWNS_PAYLOAD \<noteq> 0 \<and> payload_ptr s \<noteq> NULL then
            (let w1 = snd (heap_free (payload_ptr s) (ucast (payload_capacity s)) w)
             in case deref (signals w1) sig of
                  Inl f \<Rightarrow> Inl f
                | Inr s1 \<Rightarrow> Inr (w1\<lparr>signals := (signals w1)(sig \<mapsto> s1\<lparr>payload_ptr := NULL\<rparr>)\<rparr>))
          else Inr w)"

definition signal_free_header :: "addr \<Rightarrow> 'u world \<Rightarrow> fault + 'u world" where
  "signal_free_header sig w =
     (case deref (signals w) sig of
        Inl f \<Rightarrow> Inl f
      | Inr s \<Rightarrow>
          if sig_flags s AND SIGNAL_FLAG_HEAP_ALLOCATED \<noteq> 0
          then Inr (snd (heap_free sig sizeof_Signal w))
          else Inr w)"

definition signal_free :: "addr \<Rightarrow> 'u world \<Rightarrow> fault + 'u world" where
  "signal_free sig w =
     (if sig = NULL then Inr w
      else
        case deref (signals w) sig of
          Inl f \<Rightarrow> Inl f
        | Inr s0 \<Rightarrow>
            let s1 = (if ref_count s0 > 0 then s0\<lparr>ref_count := ref_count s0 - 1\<rparr> else s0);
                w1 = w\<lparr>signals := (signals w)(sig \<mapsto> s1)\<rparr>
            in if ref_count s1 > 0 then Inr w1
               else
                 case signal_free_payload sig w1 of
                   Inl f \<Rightarrow> Inl f
                 | Inr w2 \<Rightarrow> signal_free_header sig w2)"

text \<open>\<open>memcpy\<close> between two byte buffers: \<open>n\<close> bytes from the start of the source
  over the start of the destination. Reading or writing past either buffer is a fault.\<close>

definition memcpy :: "addr \<Rightarrow> addr \<Rightarrow> nat \<Rightarrow> 'u world \<Rightarrow> fault + 'u world" where
  "memcpy dest src n w =
     (case deref (bytes w) src of
        Inl f \<Rightarrow> Inl f
      | Inr s \<Rightarrow>
          case deref (bytes w) dest of
            Inl f \<Rightarrow> Inl f
          | Inr d \<Rightarrow>
              if n > length s \<or> n > length d then Inl OutOfBounds
              else Inr (w\<lparr>bytes := (bytes w)(dest \<mapsto> take n s @ drop n d)\<rparr>))"

text \<open>
  \<open>signal_create\<close>. A failure is the null pointer, whatever its cause. The payload
  block comes zeroed from \<open>heap_allocate\<close>; it enters the byte store as
  \<open>capacity\<close> zero bytes before \<open>memcpy\<close> fills its first \<open>payload_size\<close> bytes.
\<close>

definition signal_create ::
  "32 word \<Rightarrow> 32 word \<Rightarrow> addr \<Rightarrow> 32 word \<Rightarrow> 'u world \<Rightarrow> fault + (addr \<times> 'u world)" where
  "signal_create frequency_id source_agent_id payload payload_sz w =
     (if payload_sz > MAX_PAYLOAD_SIZE then Inr (NULL, w)
      else
        let (sig, w1) = signal_alloc w
        in if sig = NULL then Inr (NULL, w1)
           else
             case deref (signals w1) sig of
               Inl f \<Rightarrow> Inl f
             | Inr s \<Rightarrow>
                 let s1 = s\<lparr>sig_frequency_id := ucast frequency_id,
                            sig_source_agent_id := ucast source_agent_id\<rparr>;
                     w2 = w1\<lparr>signals := (signals w1)(sig \<mapsto> s1)\<rparr>
                 in if payload \<noteq> NULL \<and> payload_sz > 0 then
                      (let capacity = (payload_sz + 7) AND NOT 7;
                           (buf, w3) = heap_allocate (ucast capacity) w2;
                           w4 = w3\<lparr>signals := (signals w3)(sig \<mapsto> s1\<lparr>payload_ptr := buf\<rparr>)\<rparr>
                       in if buf = NULL then
                            (case signal_free sig w4 of
                               Inl f \<Rightarrow> Inl f
                             | Inr w5 \<Rightarrow> Inr (NULL, w5))
                          else
                            let w5 = w4\<lparr>bytes := (bytes w4)(buf \<mapsto> replicate (unat capacity) 0)\<rparr>
                            in case memcpy buf payload (unat payload_sz) w5 of
                                 Inl f \<Rightarrow> Inl f
                               | Inr w6 \<Rightarrow>
                                   Inr (sig,
                                        w6\<lparr>signals := (signals w6)(sig \<mapsto>
                                             s1\<lparr>payload_ptr := buf,
                                                payload_size := payload_sz,
                                                payload_capacity := capacity,
                                                sig_flags := sig_flags s1 OR SIGNAL_FLAG_OWNS_PAYLOAD\<rparr>)\<rparr>))
                    else Inr (sig, w2))"

section \<open>signal.c: the ring-buffer mailbox\<close>

definition signal_queue_create :: "32 word \<Rightarrow> 'u world \<Rightarrow> addr \<times> 'u world" where
  "signal_queue_create capacity0 w =
     (let capacity = (if \<not> is_power_of_two capacity0 then next_power_of_two capacity0
                      else capacity0);
          (queue, w1) = heap_allocate sizeof_SignalQueue w
      in if queue = NULL then (NULL, w1)
         else
           let buffer_size = ucast capacity * sizeof_ptr;
               (buf, w2) = heap_allocate buffer_size w1
           in if buf = NULL then (NULL, snd (heap_free queue sizeof_SignalQueue w2))
              else
                (queue,
                 w2\<lparr>ptr_arrays := (ptr_arrays w2)(buf \<mapsto> replicate (unat capacity) NULL),
                    queues := (queues w2)(queue \<mapsto>
                      \<lparr>buffer = buf, q_capacity = capacity, q_mask = capacity - 1,
                       head = 0, tail = 0, q_count = 0, total_enqueued = 0,
                       total_dequeued = 0, dropped_count = 0, owner_agent_id = 0,
                       q_flags = QUEUE_FLAG_ACTIVE, reserved = 0\<rparr>)\<rparr>))"

definition signal_queue_enqueue :: "addr \<Rightarrow> addr \<Rightarrow> 'u world \<Rightarrow> fault + (32 word \<times> 'u world)" where
  "signal_queue_enqueue queue signal w =
     (if queue = NULL then Inr (SIGNAL_ERR_NULL_POINTER, w)
      else if signal = NULL then Inr (SIGNAL_ERR_NULL_POINTER, w)
      else
        case deref (queues w) queue of
          Inl f \<Rightarrow> Inl f
        | Inr q \<Rightarrow>
            if q_count q \<ge> q_capacity q then
              Inr (SIGNAL_ERR_QUEUE_FULL,
                   w\<lparr>queues := (queues w)(queue \<mapsto>
                        q\<lparr>dropped_count := dropped_count q + 1,
                          q_flags := q_flags q OR QUEUE_FLAG_OVERFLOW\<rparr>)\<rparr>)
            else
              let index = tail q AND q_mask q
              in case array_set (ptr_arrays w) (buffer q) (unat index) signal of
                   Inl f \<Rightarrow> Inl f
                 | Inr arrs \<Rightarrow>
                     case signal_ref signal (w\<lparr>ptr_arrays := arrs\<rparr>) of
                       Inl f \<Rightarrow> Inl f
                     | Inr w1 \<Rightarrow>
                         Inr (SIGNAL_OK,
                              w1\<lparr>queues := (queues w1)(queue \<mapsto>
                                    q\<lparr>tail := tail q + 1,
                                      q_count := q_count q + 1,
                                      total_enqueued := total_enqueued q + 1\<rparr>)\<rparr>))"

definition signal_queue_dequeue :: "addr \<Rightarrow> 'u world \<Rightarrow> fault + (addr \<times> 'u world)" where
  "signal_queue_dequeue queue w =
     (if queue = NULL then Inr (NULL, w)
      else
        case deref (queues w) queue of
          Inl f \<Rightarrow> Inl f
        | Inr q \<Rightarrow>
            if q_count q = 0 then Inr (NULL, w)
            else
              let index = head q AND q_mask q
              in case array_get (ptr_arrays w) (buffer q) (unat index) of
                   Inl f \<Rightarrow> Inl f
                 | Inr sig \<Rightarrow>
                     case array_set (ptr_arrays w) (buffer q) (unat index) NULL of
                       Inl f \<Rightarrow> Inl f
                     | Inr arrs \<Rightarrow>
                         Inr (sig,
                              w\<lparr>ptr_arrays := arrs,
                                queues := (queues w)(queue \<mapsto>
                                  q\<lparr>head := head q + 1,
                                    q_count := q_count q - 1,
                                    total_dequeued := total_dequeued q + 1\<rparr>)\<rparr>))"

definition signal_queue_is_empty :: "addr \<Rightarrow> 'u world \<Rightarrow> fault + bool" where
  "signal_queue_is_empty queue w =
     (if queue \<noteq> NULL then
        (case deref (queues w) queue of Inl f \<Rightarrow> Inl f | Inr q \<Rightarrow> Inr (q_count q = 0))
      else Inr True)"

text \<open>
  A finite sequence of mailbox operations on one queue, for the statements about the
  lifetime of a mailbox: each step is a call of \<open>signal_queue_enqueue\<close> with some
  signal pointer, or a call of \<open>signal_queue_dequeue\<close>.
\<close>

datatype queue_op = Enqueue addr | Dequeue

fun queue_step :: "addr \<Rightarrow> queue_op \<Rightarrow> 'u world \<Rightarrow> fault + 'u world" where
  "queue_step queue (Enqueue sig) w =
     (case signal_queue_enqueue queue sig w of Inl f \<Rightarrow> Inl f | Inr (r, w1) \<Rightarrow> Inr w1)"
| "queue_step queue Dequeue w =
     (case signal_queue_dequeue queue w of Inl f \<Rightarrow> Inl f | Inr (s, w1) \<Rightarrow> Inr w1)"

fun queue_run :: "addr \<Rightarrow> queue_op list \<Rightarrow> 'u world \<Rightarrow> fault + 'u world" where
  "queue_run queue [] w = Inr w"
| "queue_run queue (x # xs) w =
     (case queue_step queue x w of Inl f \<Rightarrow> Inl f | Inr w1 \<Rightarrow> queue_run queue xs w1)"

text \<open>The state of a mailbox that \<open>signal_queue_create\<close> sets up and the two
  operations keep: the descriptor and its ring are live objects, the ring has
  \<open>capacity\<close> slots, and the mask is \<open>capacity - 1\<close>.\<close>

definition queue_ok :: "'u world \<Rightarrow> addr \<Rightarrow> bool" where
  "queue_ok w queue =
     (queue \<noteq> NULL \<and>
      (case queues w queue of
         None \<Rightarrow> False
       | Some q \<Rightarrow>
           buffer q \<noteq> NULL \<and> q_capacity q \<noteq> 0 \<and> q_mask q = q_capacity q - 1 \<and>
           (case ptr_arrays w (buffer q) of
              None \<Rightarrow> False
            | Some arr \<Rightarrow> length arr = unat (q_capacity q))))"

text \<open>The invariant of a mailbox over its lifetime: it is well formed, the live count
  is within the capacity, and both the index distance and the difference of the lifetime
  counters equal the live count (in 32-bit unsigned arithmetic).\<close>

definition mailbox_inv :: "'u world \<Rightarrow> addr \<Rightarrow> bool" where
  "mailbox_inv w queue =
     (queue_ok w queue \<and>
      (case queues w queue of
         None \<Rightarrow> False
       | Some q \<Rightarrow>
           q_count q \<le> q_capacity q \<and> tail q - head q = q_count q \<and>
           total_enqueued q - total_dequeued q = q_count q))"

text \<open>A signal pointer that may be passed to \<open>signal_queue_enqueue\<close> without
  undefined behaviour: null (rejected) or the address of a live signal.\<close>

fun op_valid :: "'u world \<Rightarrow> queue_op \<Rightarrow> bool" where
  "op_valid w (Enqueue sig) = (sig = NULL \<or> signals w sig \<noteq> None)"
| "op_valid w Dequeue = True"

text \<open>The relation between the counters of a mailbox in the words of the
  specification: \<open>total_enqueued - total_dequeued - dropped == count\<close>.\<close>

definition spec_counter_law :: "SignalQueue \<Rightarrow> bool" where
  "spec_counter_law q = (total_enqueued q - total_dequeued q - dropped_count q = q_count q)"

section \<open>Example states\<close>

text \<open>
  A process before its first allocation: the heap is not initialised, the kernel will
  grant the region at address 65536, no object exists. The states below are reached
  from it through the runtime's own functions: one signal allocated, then a mailbox of
  capacity one created, then the signal enqueued.
\<close>

definition fresh_world :: "unit world" where
  "fresh_world =
     \<lparr>g_heap = \<lparr>base = NULL, current = NULL, heap_end = NULL, total_size = 0, used = 0,
                peak_used = 0, free_list = []\<rparr>,
      g_heap_initialized = False,
      sys_mmap = (\<lambda>n. 65536),
      rdtsc = (\<lambda>n. of_nat n),
      rdtsc_reads = 0,
      signals = Map.empty, bytes = Map.empty, queues = Map.empty,
      ptr_arrays = Map.empty, u32_arrays = Map.empty,
      routing_entries = Map.empty, routing_tables = Map.empty,
      agents = Map.empty, registries = Map.empty,
      dispatch_entries = Map.empty, dispatch_tables = Map.empty,
      schedulers = Map.empty, user = ()\<rparr>"

definition ex_signal :: addr where
  "ex_signal = fst (signal_alloc fresh_world)"

definition ex_world1 :: "unit world" where
  "ex_world1 = snd (signal_alloc fresh_world)"

definition ex_queue :: addr where
  "ex_queue = fst (signal_queue_create 1 ex_world1)"

definition ex_world2 :: "unit world" where
  "ex_world2 = snd (signal_queue_create 1 ex_world1)"

definition ex_world3 :: "unit world" where
  "ex_world3 = snd (projr (signal_queue_enqueue ex_queue ex_signal ex_world2))"

text \<open>The signal and the mailbox descriptor as they are right after their creation.\<close>

definition ex_sig0 :: Signal where
  "ex_sig0 = \<lparr>sig_frequency_id = 0, sig_source_agent_id = 0,
              sig_flags = SIGNAL_FLAG_HEAP_ALLOCATED, ref_count = 1,
              payload_ptr = NULL, payload_size = 0, payload_capacity = 0,
              timestamp = 0\<rparr>"

definition ex_q0 :: SignalQueue where
  "ex_q0 = \<lparr>buffer = 65624, q_capacity = 1, q_mask = 0,
            head = 0, tail = 0, q_count = 0, total_enqueued = 0,
            total_dequeued = 0, dropped_count = 0, owner_agent_id = 0,
            q_flags = QUEUE_FLAG_ACTIVE, reserved = 0\<rparr>"

definition ex_world4 :: "unit world" where
  "ex_world4 = snd (projr (signal_queue_enqueue ex_queue ex_signal ex_world3))"

text \<open>The example signal sitting in the example mailbox, with a reference count that
  has reached the 16-bit maximum.\<close>

definition ex_world_sat :: "unit world" where
  "ex_world_sat = ex_world3\<lparr>signals := [65536 \<mapsto> ex_sig0\<lparr>ref_count := 65535\<rparr>]\<rparr>"



text \<open>
  The state with one signal, and a caller's buffer outside the heap region: four bytes
  below it at address 32, or one byte more than 64 KiB above it at address 33554432
  (the region ends at 16842752). \<open>ex_world_full\<close> is the first of these states after
  one more \<open>heap_allocate\<close>, of the 16777184 bytes that are left of the region: the
  heap is exhausted.
\<close>

definition ex_world_payload :: "unit world" where
  "ex_world_payload = ex_world1\<lparr>bytes := [32 \<mapsto> [1, 2, 3, 4]]\<rparr>"


definition ex_world_full :: "unit world" where
  "ex_world_full = snd (heap_allocate 16777184 ex_world_payload)"

section \<open>dispatch.c: the dispatch table\<close>

text \<open>
  Handlers and guards are C functions \<open>int f(void* agent_state, Signal* signal)\<close> reached
  through function pointers. A function pointer is a code address; the program text is a
  map from code addresses to the meaning of the function there: given the two pointer
  arguments and the state, it returns a value and a new state, or faults. A handler may
  do anything to the state, including emitting signals and re-registering handlers.
  Calling through a null or wild function pointer is a fault.
\<close>

type_synonym 'u handler_fn = "addr \<Rightarrow> addr \<Rightarrow> 'u world \<Rightarrow> fault + (32 word \<times> 'u world)"

type_synonym 'u code = "addr \<rightharpoonup> 'u handler_fn"

definition call_fn ::
  "'u code \<Rightarrow> addr \<Rightarrow> addr \<Rightarrow> addr \<Rightarrow> 'u world \<Rightarrow> fault + (32 word \<times> 'u world)" where
  "call_fn prog fp a b w = (case deref prog fp of Inl f \<Rightarrow> Inl f | Inr h \<Rightarrow> h a b w)"

text \<open>The linear scan of \<open>dispatch_lookup_entry\<close>, from index \<open>i\<close>: the result is the
  index of the entry found (the C code returns its address), or nothing.\<close>

function dispatch_scan :: "'u world \<Rightarrow> DispatchTable \<Rightarrow> 32 word \<Rightarrow> nat \<Rightarrow> fault + nat option" where
  "dispatch_scan w t frequency_id i =
     (if i < unat (dt_entry_count t) then
        (case array_get (dispatch_entries w) (dt_entries t) i of
           Inl f \<Rightarrow> Inl f
         | Inr entry \<Rightarrow>
             if DISPATCH_FLAG_ACTIVE \<in> de_flags entry \<and> de_frequency_id entry = frequency_id
             then Inr (Some i)
             else dispatch_scan w t frequency_id (Suc i))
      else Inr None)"
  by pat_completeness auto
termination
  by (relation "measure (\<lambda>(w, t, f, i). unat (dt_entry_count t) - i)") auto

definition dispatch_lookup_entry :: "addr \<Rightarrow> 32 word \<Rightarrow> 'u world \<Rightarrow> fault + nat option" where
  "dispatch_lookup_entry table frequency_id w =
     (if table = NULL then Inr None
      else case deref (dispatch_tables w) table of
             Inl f \<Rightarrow> Inl f
           | Inr t \<Rightarrow> dispatch_scan w t frequency_id 0)"

definition dispatch_invoke_with_state ::
  "'u code \<Rightarrow> addr \<Rightarrow> addr \<Rightarrow> addr \<Rightarrow> 'u world \<Rightarrow> fault + (dispatch_status \<times> 'u world)" where
  "dispatch_invoke_with_state prog table agent_st signal w =
     (if table = NULL \<or> signal = NULL then Inr (DISPATCH_ERR_NULL_POINTER, w)
      else
        case deref (dispatch_tables w) table of
          Inl f \<Rightarrow> Inl f
        | Inr t \<Rightarrow>
            let t1 = t\<lparr>lookup_count := lookup_count t + 1\<rparr>;
                w1 = w\<lparr>dispatch_tables := (dispatch_tables w)(table \<mapsto> t1)\<rparr>
            in case deref (signals w1) signal of
                 Inl f \<Rightarrow> Inl f
               | Inr s \<Rightarrow>
                   case dispatch_lookup_entry table (ucast (sig_frequency_id s)) w1 of
                     Inl f \<Rightarrow> Inl f
                   | Inr None \<Rightarrow>
                       let w2 = w1\<lparr>dispatch_tables := (dispatch_tables w1)(table \<mapsto>
                                      t1\<lparr>miss_count := miss_count t1 + 1\<rparr>)\<rparr>
                       in if default_handler t1 \<noteq> NULL then
                            (case call_fn prog (default_handler t1) agent_st signal w2 of
                               Inl f \<Rightarrow> Inl f
                             | Inr (result, w3) \<Rightarrow>
                                 if result \<noteq> 0 then Inr (DISPATCH_ERR_HANDLER_FAILED, w3)
                                 else Inr (DISPATCH_OK, w3))
                          else Inr (DISPATCH_ERR_NO_HANDLER, w2)
                   | Inr (Some i) \<Rightarrow>
                       let w2 = w1\<lparr>dispatch_tables := (dispatch_tables w1)(table \<mapsto>
                                      t1\<lparr>hit_count := hit_count t1 + 1\<rparr>)\<rparr>
                       in case array_get (dispatch_entries w2) (dt_entries t1) i of
                            Inl f \<Rightarrow> Inl f
                          | Inr entry \<Rightarrow>
                              case (if DISPATCH_FLAG_HAS_GUARD \<in> de_flags entry \<and> guard entry \<noteq> NULL
                                    then call_fn prog (guard entry) agent_st signal w2
                                    else Inr (1, w2)) of
                                Inl f \<Rightarrow> Inl f
                              | Inr (guard_result, w3) \<Rightarrow>
                                  if guard_result = 0 then Inr (DISPATCH_ERR_GUARD_FAILED, w3)
                                  else
                                    case array_get (dispatch_entries w3) (dt_entries t1) i of
                                      Inl f \<Rightarrow> Inl f
                                    | Inr entry1 \<Rightarrow>
                                        case call_fn prog (handler entry1) agent_st signal w3 of
                                          Inl f \<Rightarrow> Inl f
                                        | Inr (handler_result, w4) \<Rightarrow>
                                            if handler_result \<noteq> 0
                                            then Inr (DISPATCH_ERR_HANDLER_FAILED, w4)
                                            else Inr (DISPATCH_OK, w4))"

definition dispatch_invoke ::
  "'u code \<Rightarrow> addr \<Rightarrow> addr \<Rightarrow> 'u world \<Rightarrow> fault + (dispatch_status \<times> 'u world)" where
  "dispatch_invoke prog table signal w =
     (case deref (dispatch_tables w) table of
        Inl f \<Rightarrow> Inl f
      | Inr t \<Rightarrow> dispatch_invoke_with_state prog table (agent_state t) signal w)"

text \<open>An entry answers a signal kind when it is active and registered for that kind.\<close>

definition active_match :: "DispatchEntry \<Rightarrow> 32 word \<Rightarrow> bool" where
  "active_match e frequency_id =
     (DISPATCH_FLAG_ACTIVE \<in> de_flags e \<and> de_frequency_id e = frequency_id)"

text \<open>
  An example for dispatch. The application memory is one counter. The program has four
  functions: at 1000 a handler that increments the counter and succeeds, at 1001 a
  handler that fails with -1, at 1002 a guard that rejects, at 1003 a guard that accepts.
  Two dispatch tables, at 500 without and at 501 with a default handler, each hold three
  registered entries in an array of capacity four: kind 1 without guard, kind 4 behind
  the rejecting guard, kind 5 behind the accepting guard with the failing handler.
  Signals of kinds 1, 4, 5 and 99 live at 700 to 703.
\<close>

definition ex_prog :: "nat code" where
  "ex_prog =
     [1000 \<mapsto> (\<lambda>a b w. Inr (0, w\<lparr>user := Suc (user w)\<rparr>)),
      1001 \<mapsto> (\<lambda>a b w. Inr (- 1, w)),
      1002 \<mapsto> (\<lambda>a b w. Inr (0, w)),
      1003 \<mapsto> (\<lambda>a b w. Inr (1, w))]"

definition ex_entries :: "DispatchEntry list" where
  "ex_entries =
     [\<lparr>de_frequency_id = 1, de_flags = {DISPATCH_FLAG_ACTIVE}, handler = 1000, guard = NULL\<rparr>,
      \<lparr>de_frequency_id = 4, de_flags = {DISPATCH_FLAG_ACTIVE, DISPATCH_FLAG_HAS_GUARD},
       handler = 1000, guard = 1002\<rparr>,
      \<lparr>de_frequency_id = 5, de_flags = {DISPATCH_FLAG_ACTIVE, DISPATCH_FLAG_HAS_GUARD},
       handler = 1001, guard = 1003\<rparr>,
      \<lparr>de_frequency_id = 0, de_flags = {}, handler = NULL, guard = NULL\<rparr>]"

definition ex_table :: DispatchTable where
  "ex_table =
     \<lparr>dt_entries = 600, dt_entry_count = 3, dt_capacity = 4, default_handler = NULL,
      agent_state = 900, dt_agent_id = 1, lookup_count = 0, hit_count = 0, miss_count = 0\<rparr>"

definition ex_signal_of :: "16 word \<Rightarrow> Signal" where
  "ex_signal_of k =
     \<lparr>sig_frequency_id = k, sig_source_agent_id = 2,
      sig_flags = SIGNAL_FLAG_HEAP_ALLOCATED, ref_count = 1,
      payload_ptr = NULL, payload_size = 0, payload_capacity = 0, timestamp = 0\<rparr>"

definition ex_dispatch_world :: "nat world" where
  "ex_dispatch_world =
     \<lparr>g_heap = \<lparr>base = 65536, current = 65536, heap_end = 65536 + 16777216,
                total_size = 16777216, used = 0, peak_used = 0, free_list = []\<rparr>,
      g_heap_initialized = True,
      sys_mmap = (\<lambda>n. NULL),
      rdtsc = (\<lambda>n. of_nat n),
      rdtsc_reads = 0,
      signals = [700 \<mapsto> ex_signal_of 1, 701 \<mapsto> ex_signal_of 4,
                 702 \<mapsto> ex_signal_of 5, 703 \<mapsto> ex_signal_of 99],
      bytes = Map.empty, queues = Map.empty,
      ptr_arrays = Map.empty, u32_arrays = Map.empty,
      routing_entries = Map.empty, routing_tables = Map.empty,
      agents = Map.empty, registries = Map.empty,
      dispatch_entries = [600 \<mapsto> ex_entries, 601 \<mapsto> ex_entries],
      dispatch_tables = [500 \<mapsto> ex_table,
                         501 \<mapsto> ex_table\<lparr>dt_entries := 601, default_handler := 1001\<rparr>],
      schedulers = Map.empty, user = 0\<rparr>"

section \<open>routing.c: the routing table and the agent registry\<close>











text \<open>
  An example for routing. Agents 1, 2 and 3 are registered in a registry of capacity four;
  each has a mailbox of capacity two. The routing table has four slots and one route,
  from agent 1 on kind 7 to agents 2 and 3, in slot 1 (where the hash of the pair falls),
  with its mailbox cache resolved. Signal 490 is of kind 7 from agent 1; signal 491 is of
  kind 9 from agent 1, for which there is no route.
\<close>

definition ex_route_entry :: RoutingEntry where
  "ex_route_entry =
     \<lparr>re_source_agent_id = 1, re_frequency_id = 7, dest_count = 2, re_flags = 0,
      dest_agent_ids = 420, dest_queues = 430\<rparr>"

definition ex_empty_entry :: RoutingEntry where
  "ex_empty_entry =
     \<lparr>re_source_agent_id = 0, re_frequency_id = 0, dest_count = 0, re_flags = 0,
      dest_agent_ids = NULL, dest_queues = NULL\<rparr>"

definition ex_mailbox :: "addr \<Rightarrow> 32 word \<Rightarrow> SignalQueue" where
  "ex_mailbox ring owner =
     \<lparr>buffer = ring, q_capacity = 2, q_mask = 1, head = 0, tail = 0, q_count = 0,
      total_enqueued = 0, total_dequeued = 0, dropped_count = 0, owner_agent_id = owner,
      q_flags = QUEUE_FLAG_ACTIVE, reserved = 0\<rparr>"

definition ex_agent :: "32 word \<Rightarrow> addr \<Rightarrow> Agent" where
  "ex_agent aid queue =
     \<lparr>agent_id = aid, agent_type = 0, state_ptr = NULL, input_queue = queue,
      dispatch_table = NULL, ag_flags = 0, signal_count = 0\<rparr>"

definition ex_route_signal :: "16 word \<Rightarrow> Signal" where
  "ex_route_signal k =
     \<lparr>sig_frequency_id = k, sig_source_agent_id = 1,
      sig_flags = SIGNAL_FLAG_HEAP_ALLOCATED, ref_count = 1,
      payload_ptr = NULL, payload_size = 0, payload_capacity = 0, timestamp = 0\<rparr>"

definition ex_route_world :: "unit world" where
  "ex_route_world =
     \<lparr>g_heap = \<lparr>base = 65536, current = 65536, heap_end = 65536 + 16777216,
                total_size = 16777216, used = 0, peak_used = 0, free_list = []\<rparr>,
      g_heap_initialized = True,
      sys_mmap = (\<lambda>n. NULL),
      rdtsc = (\<lambda>n. of_nat n),
      rdtsc_reads = 0,
      signals = [490 \<mapsto> ex_route_signal 7, 491 \<mapsto> ex_route_signal 9],
      bytes = Map.empty,
      queues = [471 \<mapsto> ex_mailbox 481 1, 472 \<mapsto> ex_mailbox 482 2, 473 \<mapsto> ex_mailbox 483 3],
      ptr_arrays = [430 \<mapsto> [472, 473], 450 \<mapsto> [NULL, 461, 462, 463],
                    481 \<mapsto> [NULL, NULL], 482 \<mapsto> [NULL, NULL], 483 \<mapsto> [NULL, NULL]],
      u32_arrays = [420 \<mapsto> [2, 3]],
      routing_entries = [410 \<mapsto> [ex_empty_entry, ex_route_entry, ex_empty_entry, ex_empty_entry]],
      routing_tables = [400 \<mapsto> \<lparr>rt_entries = 410, rt_capacity = 4, rt_mask = 3,
                                  rt_entry_count = 1, collision_count = 0\<rparr>],
      agents = [461 \<mapsto> ex_agent 1 471, 462 \<mapsto> ex_agent 2 472, 463 \<mapsto> ex_agent 3 473],
      registries = [440 \<mapsto> \<lparr>reg_agents = 450, reg_count = 4, reg_capacity = 4\<rparr>],
      dispatch_entries = Map.empty, dispatch_tables = Map.empty,
      schedulers = Map.empty, user = ()\<rparr>"

text \<open>The state in which the delivery loop of \<open>routing_broadcast\<close> leaves the example
  when signal 490 is broadcast: both mailboxes hold the reference, the reference count
  is three.\<close>

definition ex_route_after :: "unit world" where
  "ex_route_after =
     ex_route_world
     \<lparr>ptr_arrays := [430 \<mapsto> [472, 473], 450 \<mapsto> [NULL, 461, 462, 463],
                     481 \<mapsto> [NULL, NULL], 482 \<mapsto> [490, NULL], 483 \<mapsto> [490, NULL]],
      signals := [491 \<mapsto> ex_route_signal 9, 490 \<mapsto> (ex_route_signal 7)\<lparr>ref_count := 3\<rparr>],
      queues := [471 \<mapsto> ex_mailbox 481 1,
                 472 \<mapsto> (ex_mailbox 482 2)\<lparr>tail := 1, q_count := 1, total_enqueued := 1\<rparr>,
                 473 \<mapsto> (ex_mailbox 483 3)\<lparr>tail := 1, q_count := 1, total_enqueued := 1\<rparr>]\<rparr>"


section \<open>scheduler.c: the tidal cycle\<close>

text \<open>\<open>sizeof(Scheduler)\<close> on the same target: two pointers, the phase, three
  \<open>int\<close>s and six 64-bit counters.\<close>

definition sizeof_Scheduler :: "64 word" where
  "sizeof_Scheduler = 80"

definition scheduler_create :: "addr \<Rightarrow> addr \<Rightarrow> 'u world \<Rightarrow> addr \<times> 'u world" where
  "scheduler_create registry_p routing_p w =
     (if registry_p = NULL \<or> routing_p = NULL then (NULL, w)
      else
        let (sched, w1) = heap_allocate sizeof_Scheduler w
        in if sched = NULL then (NULL, w1)
           else
             (sched,
              w1\<lparr>schedulers := (schedulers w1)(sched \<mapsto>
                   \<lparr>registry = registry_p, routing = routing_p, current_phase = PHASE_REST,
                    running = 1, empty_cycles = 0, max_empty_cycles = 10,
                    cycle_count = 0, total_signals_processed = 0, agents_active = 0,
                    dispatch_errors = 0, start_timestamp = 0, end_timestamp = 0\<rparr>)\<rparr>))"

text \<open>
  The walk over the agents in \<open>scheduler_run_cycle\<close>, from index \<open>i\<close> with
  \<open>signals_processed\<close> so far. Nothing in the loop writes to the registry struct, so it
  is read once and passed along; the array of agents, the agents, the mailboxes and the
  scheduler itself are read from the state at each step. Between the dequeue and
  \<open>signal_free\<close> the source has only a comment where the call of the dispatch table is
  meant to be.
\<close>

function cycle_loop ::
  "addr \<Rightarrow> AgentRegistry \<Rightarrow> nat \<Rightarrow> 32 word \<Rightarrow> 'u world \<Rightarrow> fault + (32 word \<times> 'u world)" where
  "cycle_loop sched r i signals_processed w =
     (if i < unat (reg_count r) then
        (case array_get (ptr_arrays w) (reg_agents r) i of
           Inl f \<Rightarrow> Inl f
         | Inr agent \<Rightarrow>
             if agent = NULL then cycle_loop sched r (Suc i) signals_processed w
             else
               case deref (agents w) agent of
                 Inl f \<Rightarrow> Inl f
               | Inr ag \<Rightarrow>
                   if input_queue ag = NULL then cycle_loop sched r (Suc i) signals_processed w
                   else
                     case deref (schedulers w) sched of
                       Inl f \<Rightarrow> Inl f
                     | Inr s \<Rightarrow>
                         let w1 = w\<lparr>schedulers := (schedulers w)(sched \<mapsto>
                                       s\<lparr>current_phase := PHASE_SENSE\<rparr>)\<rparr>
                         in case signal_queue_dequeue (input_queue ag) w1 of
                              Inl f \<Rightarrow> Inl f
                            | Inr (sig, w2) \<Rightarrow>
                                if sig = NULL then cycle_loop sched r (Suc i) signals_processed w2
                                else
                                  case deref (schedulers w2) sched of
                                    Inl f \<Rightarrow> Inl f
                                  | Inr s2 \<Rightarrow>
                                      let w3 = w2\<lparr>schedulers := (schedulers w2)(sched \<mapsto>
                                                    s2\<lparr>current_phase := PHASE_ACT\<rparr>)\<rparr>
                                      in case signal_free sig w3 of
                                           Inl f \<Rightarrow> Inl f
                                         | Inr w4 \<Rightarrow>
                                             case deref (schedulers w4) sched of
                                               Inl f \<Rightarrow> Inl f
                                             | Inr s4 \<Rightarrow>
                                                 cycle_loop sched r (Suc i) (signals_processed + 1)
                                                   (w4\<lparr>schedulers := (schedulers w4)(sched \<mapsto>
                                                        s4\<lparr>total_signals_processed :=
                                                             total_signals_processed s4 + 1\<rparr>)\<rparr>))
      else Inr (signals_processed, w))"
  by pat_completeness auto
termination
  by (relation "measure (\<lambda>(sched, r, i, signals_processed, w). unat (reg_count r) - i)") auto

definition scheduler_run_cycle :: "addr \<Rightarrow> 'u world \<Rightarrow> fault + (32 word \<times> 'u world)" where
  "scheduler_run_cycle sched w =
     (if sched = NULL then Inr (SIGNAL_ERR_NULL_POINTER, w)
      else
        case deref (schedulers w) sched of
          Inl f \<Rightarrow> Inl f
        | Inr s \<Rightarrow>
            if registry s = NULL then Inr (SIGNAL_ERR_NULL_POINTER, w)
            else
              let w1 = w\<lparr>schedulers := (schedulers w)(sched \<mapsto>
                            s\<lparr>current_phase := PHASE_REST\<rparr>)\<rparr>
              in case deref (registries w1) (registry s) of
                   Inl f \<Rightarrow> Inl f
                 | Inr r \<Rightarrow>
                     case cycle_loop sched r 0 0 w1 of
                       Inl f \<Rightarrow> Inl f
                     | Inr (signals_processed, w2) \<Rightarrow>
                         case deref (schedulers w2) sched of
                           Inl f \<Rightarrow> Inl f
                         | Inr s2 \<Rightarrow>
                             let s3 = s2\<lparr>cycle_count := cycle_count s2 + 1\<rparr>;
                                 s4 = (if 0 < sint signals_processed
                                       then s3\<lparr>agents_active :=
                                                 agents_active s3 + scast signals_processed,
                                               empty_cycles := 0\<rparr>
                                       else s3\<lparr>empty_cycles := empty_cycles s3 + 1\<rparr>)
                             in Inr (signals_processed,
                                     w2\<lparr>schedulers := (schedulers w2)(sched \<mapsto> s4)\<rparr>))"

text \<open>
  The event loop of \<open>scheduler_run\<close>, \<open>while (sched->running) ...\<close>. Nothing bounds the
  number of rounds (a scheduler without registry keeps it running without ever counting
  an empty cycle), so not returning is a possible value.
\<close>

partial_function (option) scheduler_run_loop :: "addr \<Rightarrow> 'u world \<Rightarrow> (fault + 'u world) option" where
  "scheduler_run_loop sched w =
     (case deref (schedulers w) sched of
        Inl f \<Rightarrow> Some (Inl f)
      | Inr s \<Rightarrow>
          if running s \<noteq> 0 then
            (case scheduler_run_cycle sched w of
               Inl f \<Rightarrow> Some (Inl f)
             | Inr (processed, w1) \<Rightarrow>
                 case deref (schedulers w1) sched of
                   Inl f \<Rightarrow> Some (Inl f)
                 | Inr s1 \<Rightarrow>
                     if sint processed < 0 then
                       scheduler_run_loop sched
                         (w1\<lparr>schedulers := (schedulers w1)(sched \<mapsto>
                              s1\<lparr>dispatch_errors := dispatch_errors s1 + 1\<rparr>)\<rparr>)
                     else if sint (empty_cycles s1) \<ge> sint (max_empty_cycles s1)
                          then Some (Inr w1)
                     else scheduler_run_loop sched w1)
          else Some (Inr w))"

definition scheduler_run :: "addr \<Rightarrow> 'u world \<Rightarrow> (fault + (32 word \<times> 'u world)) option" where
  "scheduler_run sched w =
     (if sched = NULL then Some (Inr (SIGNAL_ERR_NULL_POINTER, w))
      else
        case deref (schedulers w) sched of
          Inl f \<Rightarrow> Some (Inl f)
        | Inr s \<Rightarrow>
            let (ts, w0) = get_timestamp w;
                w1 = w0\<lparr>schedulers := (schedulers w0)(sched \<mapsto> s\<lparr>start_timestamp := ts\<rparr>)\<rparr>
            in case scheduler_run_loop sched w1 of
                 None \<Rightarrow> None
               | Some (Inl f) \<Rightarrow> Some (Inl f)
               | Some (Inr w2) \<Rightarrow>
                   case deref (schedulers w2) sched of
                     Inl f \<Rightarrow> Some (Inl f)
                   | Inr s2 \<Rightarrow>
                       let (te, w3) = get_timestamp w2
                       in Some (Inr (ucast (total_signals_processed s2),
                                     w3\<lparr>schedulers := (schedulers w3)(sched \<mapsto>
                                          s2\<lparr>end_timestamp := te\<rparr>)\<rparr>)))"

definition scheduler_shutdown :: "addr \<Rightarrow> 'u world \<Rightarrow> fault + 'u world" where
  "scheduler_shutdown sched w =
     (if sched \<noteq> NULL then
        (case deref (schedulers w) sched of
           Inl f \<Rightarrow> Inl f
         | Inr s \<Rightarrow> Inr (w\<lparr>schedulers := (schedulers w)(sched \<mapsto> s\<lparr>running := 0\<rparr>)\<rparr>))
      else Inr w)"

text \<open>
  A network at rest: every slot of the registry up to \<open>count\<close> is empty, or holds a
  live agent without mailbox or with an empty mailbox.
\<close>

definition quiet_agent :: "'u world \<Rightarrow> addr \<Rightarrow> bool" where
  "quiet_agent w agent =
     (agent = NULL \<or>
      (case agents w agent of
         None \<Rightarrow> False
       | Some ag \<Rightarrow>
           input_queue ag = NULL \<or>
           (case queues w (input_queue ag) of None \<Rightarrow> False | Some q \<Rightarrow> q_count q = 0)))"

definition quiescent :: "'u world \<Rightarrow> addr \<Rightarrow> bool" where
  "quiescent w registry_p =
     (registry_p \<noteq> NULL \<and>
      (case registries w registry_p of
         None \<Rightarrow> False
       | Some r \<Rightarrow>
           reg_agents r \<noteq> NULL \<and>
           (case ptr_arrays w (reg_agents r) of
              None \<Rightarrow> False
            | Some as \<Rightarrow>
                unat (reg_count r) \<le> length as \<and>
                list_all (quiet_agent w) (take (unat (reg_count r)) as))))"

text \<open>
  Examples for the scheduler. \<open>ex_scheduler\<close> is a scheduler as \<open>scheduler_create\<close>
  leaves it. \<open>ex_sched_world\<close> is the routing example after
  \<open>scheduler_create(registry, routing)\<close>: the scheduler is the first block of the heap, all
  three mailboxes are empty and slot 0 of the registry is empty. In \<open>ex_stopped_world\<close>
  the scheduler has been shut down. \<open>ex_cycle_world\<close> is the dispatch example with one
  agent 461 in the registry, whose dispatch table is the table at 500 (a handler for kind
  1 is registered) and whose mailbox 471 holds the signal 700 of kind 1; the scheduler is
  at 300.
\<close>

definition ex_scheduler :: "addr \<Rightarrow> Scheduler" where
  "ex_scheduler reg =
     \<lparr>registry = reg, routing = 400, current_phase = PHASE_REST,
      running = 1, empty_cycles = 0, max_empty_cycles = 10,
      cycle_count = 0, total_signals_processed = 0, agents_active = 0,
      dispatch_errors = 0, start_timestamp = 0, end_timestamp = 0\<rparr>"

definition ex_sched_world :: "unit world" where
  "ex_sched_world =
     ex_route_world
     \<lparr>g_heap := \<lparr>base = 65536, current = 65616, heap_end = 65536 + 16777216,
                 total_size = 16777216, used = 80, peak_used = 80, free_list = []\<rparr>,
      schedulers := [65536 \<mapsto> ex_scheduler 440]\<rparr>"

definition ex_stopped_world :: "unit world" where
  "ex_stopped_world =
     ex_sched_world\<lparr>schedulers := [65536 \<mapsto> (ex_scheduler 440)\<lparr>running := 0\<rparr>]\<rparr>"

definition ex_cycle_world :: "nat world" where
  "ex_cycle_world =
     ex_dispatch_world
     \<lparr>queues := [471 \<mapsto> (ex_mailbox 481 1)\<lparr>tail := 1, q_count := 1, total_enqueued := 1\<rparr>],
      ptr_arrays := [450 \<mapsto> [461], 481 \<mapsto> [700, NULL]],
      agents := [461 \<mapsto> (ex_agent 1 471)\<lparr>state_ptr := 900, dispatch_table := 500\<rparr>],
      registries := [440 \<mapsto> \<lparr>reg_agents = 450, reg_count = 1, reg_capacity = 1\<rparr>],
      schedulers := [300 \<mapsto> ex_scheduler 440]\<rparr>"

text \<open>
  What is left to do in a network. \<open>pending_at w arr j\<close> is the number of signals that
  wait in the mailbox of the agent in slot \<open>j\<close> of the array of agents at \<open>arr\<close> (none
  for an empty slot, a dead agent, or an agent without a live mailbox); \<open>pending w r\<close>
  adds them up over the slots of the registry \<open>r\<close>.
\<close>

definition pending_at :: "'u world \<Rightarrow> addr \<Rightarrow> nat \<Rightarrow> nat" where
  "pending_at w arr j =
     (case ptr_arrays w arr of
        None \<Rightarrow> 0
      | Some as \<Rightarrow>
          if j < length as \<and> as ! j \<noteq> NULL then
            (case agents w (as ! j) of
               None \<Rightarrow> 0
             | Some ag \<Rightarrow>
                 if input_queue ag = NULL then 0
                 else case queues w (input_queue ag) of
                        None \<Rightarrow> 0
                      | Some q \<Rightarrow> unat (q_count q))
          else 0)"

definition pending :: "'u world \<Rightarrow> AgentRegistry \<Rightarrow> nat" where
  "pending w r = (\<Sum>j<unat (reg_count r). pending_at w (reg_agents r) j)"

text \<open>
  \<open>shrinks sched w w'\<close>: from \<open>w\<close> to \<open>w'\<close> no agent and no registry has appeared or
  changed, no mailbox has grown, slots of pointer arrays have kept their value or
  become null, and the scheduler \<open>sched\<close>, if it is still there, has kept its registry,
  its \<open>running\<close> flag, its two cycle limits and its cycle count. Everything that the
  walk over the agents does to the state is of this kind.
\<close>

definition shrinks :: "addr \<Rightarrow> 'u world \<Rightarrow> 'u world \<Rightarrow> bool" where
  "shrinks sched w w' =
     ((\<forall>a ag. agents w' a = Some ag \<longrightarrow> agents w a = Some ag) \<and>
      (\<forall>a q'. queues w' a = Some q' \<longrightarrow>
          (\<exists>q. queues w a = Some q \<and> unat (q_count q') \<le> unat (q_count q))) \<and>
      (\<forall>arr as'. ptr_arrays w' arr = Some as' \<longrightarrow>
          (\<exists>as. ptr_arrays w arr = Some as \<and> length as' = length as \<and>
                (\<forall>j<length as. as' ! j = as ! j \<or> as' ! j = NULL))) \<and>
      (\<forall>a r. registries w' a = Some r \<longrightarrow> registries w a = Some r) \<and>
      (\<forall>s'. schedulers w' sched = Some s' \<longrightarrow>
          (\<exists>s. schedulers w sched = Some s \<and> registry s' = registry s \<and>
               running s' = running s \<and> empty_cycles s' = empty_cycles s \<and>
               max_empty_cycles s' = max_empty_cycles s \<and> cycle_count s' = cycle_count s)))"

text \<open>
  The measure that decreases round the loop of \<open>scheduler_run\<close>, in lexicographic order:
  the signals pending in the scheduler's registry, then the distance of the counter of
  empty cycles, after its next increment, from \<open>max_empty_cycles\<close>.
\<close>

definition run_measure :: "addr \<Rightarrow> 'u world \<Rightarrow> nat \<times> nat" where
  "run_measure sched w =
     (case schedulers w sched of
        None \<Rightarrow> (0, 0)
      | Some s \<Rightarrow>
          ((case registries w (registry s) of None \<Rightarrow> 0 | Some r \<Rightarrow> pending w r),
           nat (sint (max_empty_cycles s) - sint (empty_cycles s + 1))))"

text \<open>
  \<open>ex_busy_world\<close> is \<open>ex_sched_world\<close> with work to do: the signal 490 has been
  delivered to the mailboxes of agents 2 and 3 and its creator still holds a reference
  (the stores of signals, mailboxes and pointer arrays are those of \<open>ex_route_after\<close>).
\<close>

definition ex_busy_world :: "unit world" where
  "ex_busy_world =
     ex_sched_world\<lparr>signals := signals ex_route_after, queues := queues ex_route_after,
                    ptr_arrays := ptr_arrays ex_route_after\<rparr>"

section \<open>Properties\<close>

subsection \<open>Memory and word arithmetic\<close>

lemma mask_index_less:
  fixes c :: "32 word"
  assumes "c \<noteq> 0"
  shows "unat (x AND (c - 1)) < unat c"
proof -
  have "x AND (c - 1) \<le> c - 1" by (rule word_and_le1)
  moreover have "c - 1 < c" using assms by (simp add: word_less_nat_alt unat_minus_one unat_gt_0)
  ultimately have "x AND (c - 1) < c" by simp
  then show ?thesis by (simp add: word_less_nat_alt)
qed

lemma deref_Some: "p \<noteq> NULL \<Longrightarrow> m p = Some v \<Longrightarrow> deref m p = Inr v"
  by (simp add: deref_def)

lemma queue_okD:
  assumes "queue_ok w queue" "queues w queue = Some q"
  shows "queue \<noteq> NULL" "buffer q \<noteq> NULL" "q_capacity q \<noteq> 0" "q_mask q = q_capacity q - 1"
    "\<exists>arr. ptr_arrays w (buffer q) = Some arr \<and> length arr = unat (q_capacity q)"
  using assms by (auto simp: queue_ok_def split: option.splits)

subsection \<open>The mailbox operations on a well-formed queue\<close>

lemma enqueue_full:
  assumes "queue \<noteq> NULL" "signal \<noteq> NULL" "queues w queue = Some q" "q_count q \<ge> q_capacity q"
  shows "signal_queue_enqueue queue signal w =
           Inr (SIGNAL_ERR_QUEUE_FULL,
                w\<lparr>queues := (queues w)(queue \<mapsto>
                      q\<lparr>dropped_count := dropped_count q + 1,
                        q_flags := q_flags q OR QUEUE_FLAG_OVERFLOW\<rparr>)\<rparr>)"
  using assms by (simp add: signal_queue_enqueue_def deref_Some)

lemma enqueue_room:
  assumes ok: "queue_ok w queue" and q: "queues w queue = Some q"
    and s: "signal \<noteq> NULL" "signals w signal = Some s"
    and arr: "ptr_arrays w (buffer q) = Some arr"
    and room: "q_count q < q_capacity q"
  shows "signal_queue_enqueue queue signal w =
           Inr (SIGNAL_OK,
                w\<lparr>ptr_arrays := (ptr_arrays w)(buffer q \<mapsto>
                      arr[unat (tail q AND (q_capacity q - 1)) := signal]),
                  signals := (signals w)(signal \<mapsto> s\<lparr>ref_count := ref_count s + 1\<rparr>),
                  queues := (queues w)(queue \<mapsto>
                      q\<lparr>tail := tail q + 1, q_count := q_count q + 1,
                        total_enqueued := total_enqueued q + 1\<rparr>)\<rparr>)"
proof -
  note d = queue_okD[OF ok q]
  from d(5) arr have len: "length arr = unat (q_capacity q)" by auto
  have idx: "unat (tail q AND (q_capacity q - 1)) < length arr"
    using mask_index_less[OF d(3)] len by simp
  have nfull: "\<not> q_capacity q \<le> q_count q" using room by simp
  show ?thesis
    using d(1-4) s arr nfull idx q
    by (simp add: signal_queue_enqueue_def deref_Some array_set_def signal_ref_def Let_def)
qed

lemma dequeue_nonempty:
  assumes ok: "queue_ok w queue" and q: "queues w queue = Some q"
    and arr: "ptr_arrays w (buffer q) = Some arr"
    and ne: "q_count q \<noteq> 0"
  shows "signal_queue_dequeue queue w =
           Inr (arr ! unat (head q AND (q_capacity q - 1)),
                w\<lparr>ptr_arrays := (ptr_arrays w)(buffer q \<mapsto>
                      arr[unat (head q AND (q_capacity q - 1)) := NULL]),
                  queues := (queues w)(queue \<mapsto>
                      q\<lparr>head := head q + 1, q_count := q_count q - 1,
                        total_dequeued := total_dequeued q + 1\<rparr>)\<rparr>)"
proof -
  note d = queue_okD[OF ok q]
  from d(5) arr have len: "length arr = unat (q_capacity q)" by auto
  have idx: "unat (head q AND (q_capacity q - 1)) < length arr"
    using mask_index_less[OF d(3)] len by simp
  show ?thesis
    using d(1-4) arr ne idx q
    by (simp add: signal_queue_dequeue_def deref_Some array_set_def array_get_def Let_def)
qed

lemma dequeue_empty:
  assumes "queues w queue = Some q" "q_count q = 0"
  shows "signal_queue_dequeue queue w = Inr (NULL, w)"
  using assms by (simp add: signal_queue_dequeue_def deref_def)

lemma word_count_step:
  fixes c :: "32 word"
  assumes "c < cap"
  shows "c + 1 \<le> cap"
  using assms by (simp add: inc_le)

lemma word_pred_le:
  fixes c :: "32 word"
  assumes "c \<le> cap" "c \<noteq> 0"
  shows "c - 1 \<le> cap"
proof -
  have "c - 1 \<le> c" using assms(2) by (simp add: word_le_nat_alt unat_minus_one)
  then show ?thesis using assms(1) by simp
qed

lemma enqueue_preserves_inv:
  assumes inv: "mailbox_inv w queue" and v: "sig = NULL \<or> signals w sig \<noteq> None"
  shows "\<exists>r w'. signal_queue_enqueue queue sig w = Inr (r, w') \<and> mailbox_inv w' queue
            \<and> dom (signals w') = dom (signals w)"
proof -
  from inv obtain q where q: "queues w queue = Some q" and ok: "queue_ok w queue"
    and c: "q_count q \<le> q_capacity q" and th: "tail q - head q = q_count q"
    and tot: "total_enqueued q - total_dequeued q = q_count q"
    by (auto simp: mailbox_inv_def split: option.splits)
  note d = queue_okD[OF ok q]
  from d(5) obtain arr where arr: "ptr_arrays w (buffer q) = Some arr"
    and len: "length arr = unat (q_capacity q)" by auto
  show ?thesis
  proof (cases "sig = NULL")
    case True
    then show ?thesis using inv d(1) by (simp add: signal_queue_enqueue_def)
  next
    case False
    with v obtain s where s: "signals w sig = Some s" by auto
    show ?thesis
    proof (cases "q_count q < q_capacity q")
      case True
      have c': "q_count q + 1 \<le> q_capacity q" using True by (rule word_count_step)
      show ?thesis
        using enqueue_room[OF ok q False s arr True] q d len c' th tot s
        by (auto simp: mailbox_inv_def queue_ok_def)
    next
      case full: False
      then have "q_count q \<ge> q_capacity q" by simp
      from enqueue_full[OF d(1) False q this] show ?thesis
        using q d arr len c th tot
        by (auto simp: mailbox_inv_def queue_ok_def)
    qed
  qed
qed

lemma dequeue_preserves_inv:
  assumes inv: "mailbox_inv w queue"
  shows "\<exists>r w'. signal_queue_dequeue queue w = Inr (r, w') \<and> mailbox_inv w' queue
            \<and> signals w' = signals w"
proof -
  from inv obtain q where q: "queues w queue = Some q" and ok: "queue_ok w queue"
    and c: "q_count q \<le> q_capacity q" and th: "tail q - head q = q_count q"
    and tot: "total_enqueued q - total_dequeued q = q_count q"
    by (auto simp: mailbox_inv_def split: option.splits)
  note d = queue_okD[OF ok q]
  from d(5) obtain arr where arr: "ptr_arrays w (buffer q) = Some arr"
    and len: "length arr = unat (q_capacity q)" by auto
  show ?thesis
  proof (cases "q_count q = 0")
    case True
    then show ?thesis using dequeue_empty[OF q True] inv by simp
  next
    case False
    have c': "q_count q - 1 \<le> q_capacity q" using c False by (rule word_pred_le)
    show ?thesis
      using dequeue_nonempty[OF ok q arr False] q d len c' th tot
      by (auto simp: mailbox_inv_def queue_ok_def)
  qed
qed

lemma op_valid_dom:
  assumes "dom (signals w1) = dom (signals w)"
  shows "op_valid w1 x = op_valid w x"
proof (cases x)
  case (Enqueue sig)
  have "(signals w1 sig \<noteq> None) = (signals w sig \<noteq> None)"
    using assms by (metis domIff)
  then show ?thesis using Enqueue by simp
next
  case Dequeue
  then show ?thesis by simp
qed

lemma queue_run_inv:
  assumes "mailbox_inv w queue" "list_all (op_valid w) ops"
  shows "\<exists>w'. queue_run queue ops w = Inr w' \<and> mailbox_inv w' queue"
  using assms
proof (induction ops arbitrary: w)
  case Nil
  then show ?case by simp
next
  case (Cons x xs)
  show ?case
  proof (cases x)
    case (Enqueue sig)
    with Cons.prems have v: "sig = NULL \<or> signals w sig \<noteq> None" by simp
    from enqueue_preserves_inv[OF Cons.prems(1) v] obtain r w1 where
      e: "signal_queue_enqueue queue sig w = Inr (r, w1)" and i: "mailbox_inv w1 queue"
      and dm: "dom (signals w1) = dom (signals w)" by blast
    have "list_all (op_valid w1) xs"
      using Cons.prems(2) op_valid_dom[OF dm] by (simp add: list_all_iff)
    from Cons.IH[OF i this] show ?thesis using e Enqueue by simp
  next
    case Dequeue
    from dequeue_preserves_inv[OF Cons.prems(1)] obtain r w1 where
      e: "signal_queue_dequeue queue w = Inr (r, w1)" and i: "mailbox_inv w1 queue"
      and dm: "signals w1 = signals w" by blast
    have "list_all (op_valid w1) xs"
      using Cons.prems(2) op_valid_dom[of w1 w] dm by (simp add: list_all_iff)
    from Cons.IH[OF i this] show ?thesis using e Dequeue by simp
  qed
qed

lemma heap_allocate_zero: "fst (heap_allocate 0 w) = NULL"
  by (simp add: heap_allocate_def Let_def split: prod.splits)

lemma ucast_times_ptr_zero:
  fixes c :: "32 word"
  assumes "(ucast c :: 64 word) * sizeof_ptr = 0"
  shows "c = 0"
proof -
  have "unat ((ucast c :: 64 word) * 8) = unat c * 8"
  proof -
    have lt: "unat c < 2 ^ 32" using unsigned_less[of c, where 'a=nat] by simp
    then have uc: "unat (ucast c :: 64 word) = unat c"
      by (simp add: unsigned_ucast_eq take_bit_nat_eq_self)
    from lt have "unat c * 8 < 2 ^ 64" by simp
    then show ?thesis by (simp add: unat_word_ariths uc)
  qed
  with assms have "unat c * 8 = 0" by (simp add: sizeof_ptr_def)
  then show ?thesis by (simp add: unat_eq_0)
qed

lemma create_establishes_inv:
  assumes "signal_queue_create c w = (queue, w1)" "queue \<noteq> NULL"
  shows "mailbox_inv w1 queue"
proof -
  define cap where "cap = (if \<not> is_power_of_two c then next_power_of_two c else c)"
  obtain qa wa where a1: "heap_allocate sizeof_SignalQueue w = (qa, wa)" by force
  obtain buf wb where a2: "heap_allocate (ucast cap * sizeof_ptr) wa = (buf, wb)" by force
  from assms a1 a2 have qa: "qa \<noteq> NULL" and "buf \<noteq> NULL" and "queue = qa"
    by (auto simp: signal_queue_create_def Let_def cap_def split: if_splits)
  have capnz: "cap \<noteq> 0"
  proof
    assume "cap = 0"
    then have "fst (heap_allocate (ucast cap * sizeof_ptr) wa) = NULL"
      using heap_allocate_zero[of wa] by simp
    with a2 \<open>buf \<noteq> NULL\<close> show False by simp
  qed
  from assms a1 a2 qa \<open>buf \<noteq> NULL\<close> have w1: "w1 =
      wb\<lparr>ptr_arrays := (ptr_arrays wb)(buf \<mapsto> replicate (unat cap) NULL),
         queues := (queues wb)(qa \<mapsto>
           \<lparr>buffer = buf, q_capacity = cap, q_mask = cap - 1,
            head = 0, tail = 0, q_count = 0, total_enqueued = 0,
            total_dequeued = 0, dropped_count = 0, owner_agent_id = 0,
            q_flags = QUEUE_FLAG_ACTIVE, reserved = 0\<rparr>)\<rparr>"
    by (auto simp: signal_queue_create_def Let_def cap_def)
  show ?thesis
    using qa \<open>buf \<noteq> NULL\<close> capnz \<open>queue = qa\<close>
    by (simp add: w1 mailbox_inv_def queue_ok_def)
qed

lemmas heap_evals = heap_allocate_def heap_init_def Let_def
      sizeof_Signal_def sizeof_FreeBlock_def DEFAULT_HEAP_SIZE_def get_timestamp_def
      sizeof_SignalQueue_def sizeof_ptr_def

lemma fresh_world_sel:
  "g_heap_initialized fresh_world = False"
  "sys_mmap fresh_world = (\<lambda>n. 65536)"
  "rdtsc fresh_world = (\<lambda>n. of_nat n)"
  "rdtsc_reads fresh_world = 0"
  "signals fresh_world = Map.empty"
  "bytes fresh_world = Map.empty"
  "queues fresh_world = Map.empty"
  "ptr_arrays fresh_world = Map.empty"
  by (simp_all add: fresh_world_def)

lemma ex_signal_alloc:
  "signal_alloc fresh_world =
     (65536,
      fresh_world\<lparr>g_heap := \<lparr>base = 65536, current = 65568, heap_end = 65536 + 16777216,
                             total_size = 16777216, used = 32, peak_used = 32, free_list = []\<rparr>,
                  g_heap_initialized := True,
                  rdtsc_reads := 1,
                  signals := [65536 \<mapsto>
                    \<lparr>sig_frequency_id = 0, sig_source_agent_id = 0,
                     sig_flags = SIGNAL_FLAG_HEAP_ALLOCATED, ref_count = 1,
                     payload_ptr = NULL, payload_size = 0, payload_capacity = 0,
                     timestamp = 0\<rparr>]\<rparr>)"
  by (simp add: signal_alloc_def heap_evals fresh_world_sel)

lemma ex_queue_create:
  "signal_queue_create 1 ex_world1 =
     (65568,
      ex_world1\<lparr>g_heap := \<lparr>base = 65536, current = 65640, heap_end = 65536 + 16777216,
                             total_size = 16777216, used = 104, peak_used = 104, free_list = []\<rparr>,
                ptr_arrays := [65624 \<mapsto> [NULL]],
                queues := [65568 \<mapsto>
                      \<lparr>buffer = 65624, q_capacity = 1, q_mask = 0,
                       head = 0, tail = 0, q_count = 0, total_enqueued = 0,
                       total_dequeued = 0, dropped_count = 0, owner_agent_id = 0,
                       q_flags = QUEUE_FLAG_ACTIVE, reserved = 0\<rparr>]\<rparr>)"
  by (simp add: ex_world1_def ex_signal_alloc signal_queue_create_def heap_evals fresh_world_sel
      is_power_of_two_def)

lemma ex_world1_sel:
  "ex_signal = 65536"
  "signals ex_world1 = [65536 \<mapsto> ex_sig0]"
  "queues ex_world1 = Map.empty"
  "ptr_arrays ex_world1 = Map.empty"
  by (simp_all add: ex_signal_def ex_world1_def ex_signal_alloc fresh_world_sel ex_sig0_def)

lemma ex_world2_sel:
  "ex_queue = 65568"
  "signals ex_world2 = [65536 \<mapsto> ex_sig0]"
  "queues ex_world2 = [65568 \<mapsto> ex_q0]"
  "ptr_arrays ex_world2 = [65624 \<mapsto> [NULL]]"
  by (simp_all add: ex_queue_def ex_world2_def ex_queue_create ex_world1_sel ex_q0_def)

lemma ex_world2_ok: "queue_ok ex_world2 ex_queue"
  by (simp add: queue_ok_def ex_world2_sel ex_q0_def)

lemma ex_enqueue2:
  "signal_queue_enqueue ex_queue ex_signal ex_world2 =
     Inr (SIGNAL_OK,
          ex_world2\<lparr>ptr_arrays := [65624 \<mapsto> [65536]],
                    signals := [65536 \<mapsto> ex_sig0\<lparr>ref_count := 2\<rparr>],
                    queues := [65568 \<mapsto> ex_q0\<lparr>tail := 1, q_count := 1, total_enqueued := 1\<rparr>]\<rparr>)"
  using enqueue_room[OF ex_world2_ok, of ex_q0 ex_signal ex_sig0 "[NULL]"]
  by (simp add: ex_world2_sel ex_world1_sel ex_q0_def ex_sig0_def)

lemma ex_world3_sel:
  "signals ex_world3 = [65536 \<mapsto> ex_sig0\<lparr>ref_count := 2\<rparr>]"
  "queues ex_world3 = [65568 \<mapsto> ex_q0\<lparr>tail := 1, q_count := 1, total_enqueued := 1\<rparr>]"
  "ptr_arrays ex_world3 = [65624 \<mapsto> [65536]]"
  by (simp_all add: ex_world3_def ex_enqueue2)

lemma ex_world3_ok: "queue_ok ex_world3 ex_queue"
  by (simp add: queue_ok_def ex_world3_sel ex_world2_sel ex_q0_def)

subsection \<open>Enqueue: the full and the non-full mailbox\<close>

text \<open>
  Claim C3. On a well-formed mailbox and a live signal: when \<open>count == capacity\<close>,
  \<open>signal_queue_enqueue\<close> returns \<open>SIGNAL_ERR_QUEUE_FULL\<close> and changes nothing but
  \<open>dropped_count\<close> (incremented) and the flags (the overflow bit is set); in particular
  the signal and its \<open>ref_count\<close>, \<open>head\<close>, \<open>tail\<close>, \<open>count\<close> and
  \<open>total_enqueued\<close> are as before. When \<open>count < capacity\<close> it returns
  \<open>SIGNAL_OK\<close>, having written the reference into slot \<open>tail & (capacity - 1)\<close>,
  incremented the signal's \<open>ref_count\<close>, and incremented \<open>tail\<close>, \<open>count\<close> and
  \<open>total_enqueued\<close>.
\<close>

theorem enqueue_full_or_room:
  assumes "queue_ok w queue" and "queues w queue = Some q"
    and "ptr_arrays w (buffer q) = Some arr"
    and "signal \<noteq> NULL" and "signals w signal = Some s"
  shows "(q_count q = q_capacity q \<longrightarrow>
            signal_queue_enqueue queue signal w =
              Inr (SIGNAL_ERR_QUEUE_FULL,
                   w\<lparr>queues := (queues w)(queue \<mapsto>
                        q\<lparr>dropped_count := dropped_count q + 1,
                          q_flags := q_flags q OR QUEUE_FLAG_OVERFLOW\<rparr>)\<rparr>)) \<and>
         (q_count q < q_capacity q \<longrightarrow>
            signal_queue_enqueue queue signal w =
              Inr (SIGNAL_OK,
                   w\<lparr>ptr_arrays := (ptr_arrays w)(buffer q \<mapsto>
                        arr[unat (tail q AND (q_capacity q - 1)) := signal]),
                     signals := (signals w)(signal \<mapsto> s\<lparr>ref_count := ref_count s + 1\<rparr>),
                     queues := (queues w)(queue \<mapsto>
                        q\<lparr>tail := tail q + 1, q_count := q_count q + 1,
                          total_enqueued := total_enqueued q + 1\<rparr>)\<rparr>))"
proof (intro conjI impI)
  assume "q_count q = q_capacity q"
  then have "q_count q \<ge> q_capacity q" by simp
  from enqueue_full[OF queue_okD(1)[OF assms(1,2)] assms(4) assms(2) this]
  show "signal_queue_enqueue queue signal w =
              Inr (SIGNAL_ERR_QUEUE_FULL,
                   w\<lparr>queues := (queues w)(queue \<mapsto>
                        q\<lparr>dropped_count := dropped_count q + 1,
                          q_flags := q_flags q OR QUEUE_FLAG_OVERFLOW\<rparr>)\<rparr>)" .
next
  assume "q_count q < q_capacity q"
  from enqueue_room[OF assms(1,2,4,5,3) this]
  show "signal_queue_enqueue queue signal w =
              Inr (SIGNAL_OK,
                   w\<lparr>ptr_arrays := (ptr_arrays w)(buffer q \<mapsto>
                        arr[unat (tail q AND (q_capacity q - 1)) := signal]),
                     signals := (signals w)(signal \<mapsto> s\<lparr>ref_count := ref_count s + 1\<rparr>),
                     queues := (queues w)(queue \<mapsto>
                        q\<lparr>tail := tail q + 1, q_count := q_count q + 1,
                          total_enqueued := total_enqueued q + 1\<rparr>)\<rparr>)" .
qed

theorem enqueue_full_or_room_witness:
  "queue_ok ex_world2 ex_queue \<and> queue_ok ex_world3 ex_queue \<and>
   signal_queue_enqueue ex_queue ex_signal ex_world2 =
     Inr (SIGNAL_OK,
          ex_world2\<lparr>ptr_arrays := [65624 \<mapsto> [65536]],
                    signals := [65536 \<mapsto> ex_sig0\<lparr>ref_count := 2\<rparr>],
                    queues := [65568 \<mapsto> ex_q0\<lparr>tail := 1, q_count := 1, total_enqueued := 1\<rparr>]\<rparr>) \<and>
   signal_queue_enqueue ex_queue ex_signal ex_world3 =
     Inr (SIGNAL_ERR_QUEUE_FULL,
          ex_world3\<lparr>queues := [65568 \<mapsto>
             ex_q0\<lparr>tail := 1, q_count := 1, total_enqueued := 1, dropped_count := 1,
                   q_flags := 3\<rparr>]\<rparr>)"
  using enqueue_full_or_room[OF ex_world2_ok, of ex_q0 "[NULL]" ex_signal ex_sig0]
    enqueue_full_or_room[OF ex_world3_ok,
      of "ex_q0\<lparr>tail := 1, q_count := 1, total_enqueued := 1\<rparr>" "[65536]" ex_signal
         "ex_sig0\<lparr>ref_count := 2\<rparr>"]
    ex_world2_ok ex_world3_ok
  by (simp add: ex_world2_sel ex_world3_sel ex_world1_sel ex_q0_def ex_sig0_def
      QUEUE_FLAG_ACTIVE_def QUEUE_FLAG_OVERFLOW_def)

subsection \<open>The example mailbox step by step\<close>

lemma ex_world2_inv: "mailbox_inv ex_world2 ex_queue"
  using ex_world2_ok by (simp add: mailbox_inv_def ex_world2_sel ex_q0_def)

lemma ex_step2: "signal_queue_enqueue ex_queue ex_signal ex_world2 = Inr (SIGNAL_OK, ex_world3)"
  by (simp add: ex_world3_def ex_enqueue2)

lemma ex_create: "signal_queue_create 1 ex_world1 = (ex_queue, ex_world2)"
  by (simp add: ex_queue_def ex_world2_def)

lemma ex_enqueue3:
  "signal_queue_enqueue ex_queue ex_signal ex_world3 =
     Inr (SIGNAL_ERR_QUEUE_FULL,
          ex_world3\<lparr>queues := [65568 \<mapsto>
             ex_q0\<lparr>tail := 1, q_count := 1, total_enqueued := 1, dropped_count := 1,
                   q_flags := 3\<rparr>]\<rparr>)"
  using enqueue_full[of ex_queue ex_signal ex_world3
      "ex_q0\<lparr>tail := 1, q_count := 1, total_enqueued := 1\<rparr>"]
  by (simp add: ex_world2_sel ex_world3_sel ex_world1_sel ex_q0_def
      QUEUE_FLAG_ACTIVE_def QUEUE_FLAG_OVERFLOW_def)

lemma ex_world4_sel:
  "signals ex_world4 = [65536 \<mapsto> ex_sig0\<lparr>ref_count := 2\<rparr>]"
  "queues ex_world4 = [65568 \<mapsto>
      ex_q0\<lparr>tail := 1, q_count := 1, total_enqueued := 1, dropped_count := 1, q_flags := 3\<rparr>]"
  "ptr_arrays ex_world4 = [65624 \<mapsto> [65536]]"
  by (simp_all add: ex_world4_def ex_enqueue3 ex_world3_sel)

lemma ex_step3:
  "signal_queue_enqueue ex_queue ex_signal ex_world3 = Inr (SIGNAL_ERR_QUEUE_FULL, ex_world4)"
  by (simp add: ex_world4_def ex_enqueue3)

lemma ex_run_two_enqueues:
  "queue_run ex_queue [Enqueue ex_signal, Enqueue ex_signal] ex_world2 = Inr ex_world4"
  by (simp add: ex_step2 ex_step3)

subsection \<open>Enqueue then dequeue on an empty mailbox\<close>

text \<open>
  Claim C8. On an empty mailbox (one that satisfies the mailbox invariant and has
  \<open>count = 0\<close>) and a live signal, \<open>signal_queue_enqueue\<close> succeeds and the
  following \<open>signal_queue_dequeue\<close> returns the very reference that was enqueued;
  afterwards \<open>total_enqueued\<close> and \<open>total_dequeued\<close> are each one more than before.
\<close>

theorem enqueue_dequeue_roundtrip:
  assumes inv: "mailbox_inv w queue" and q: "queues w queue = Some q"
    and empty: "q_count q = 0"
    and sg: "signal \<noteq> NULL" "signals w signal = Some s"
  shows "\<exists>w1 w2 q2.
           signal_queue_enqueue queue signal w = Inr (SIGNAL_OK, w1) \<and>
           signal_queue_dequeue queue w1 = Inr (signal, w2) \<and>
           queues w2 queue = Some q2 \<and>
           total_enqueued q2 = total_enqueued q + 1 \<and>
           total_dequeued q2 = total_dequeued q + 1"
proof -
  from inv q have ok: "queue_ok w queue" and th: "tail q - head q = q_count q"
    by (auto simp: mailbox_inv_def)
  note d = queue_okD[OF ok q]
  from d(5) obtain arr where arr: "ptr_arrays w (buffer q) = Some arr"
    and len: "length arr = unat (q_capacity q)" by auto
  have ht: "head q = tail q" using th empty by simp
  have room: "q_count q < q_capacity q" using empty d(3) by (simp add: word_greater_zero_iff)
  let ?i = "unat (tail q AND (q_capacity q - 1))"
  have idx: "?i < length arr" using mask_index_less[OF d(3)] len by simp
  define q1 where "q1 = q\<lparr>tail := tail q + 1, q_count := q_count q + 1,
                          total_enqueued := total_enqueued q + 1\<rparr>"
  define w1 where "w1 = w\<lparr>ptr_arrays := (ptr_arrays w)(buffer q \<mapsto> arr[?i := signal]),
                     signals := (signals w)(signal \<mapsto> s\<lparr>ref_count := ref_count s + 1\<rparr>),
                     queues := (queues w)(queue \<mapsto> q1)\<rparr>"
  have e: "signal_queue_enqueue queue signal w = Inr (SIGNAL_OK, w1)"
    using enqueue_room[OF ok q sg arr room] by (simp add: w1_def q1_def)
  have q1: "queues w1 queue = Some q1" by (simp add: w1_def)
  have ok1: "queue_ok w1 queue"
    using d len by (simp add: queue_ok_def w1_def q1_def)
  have arr1: "ptr_arrays w1 (buffer q1) = Some (arr[?i := signal])"
    by (simp add: w1_def q1_def)
  have ne: "q_count q1 \<noteq> 0" using empty by (simp add: q1_def)
  have "signal_queue_dequeue queue w1 =
          Inr ((arr[?i := signal]) ! unat (head q1 AND (q_capacity q1 - 1)),
                w1\<lparr>ptr_arrays := (ptr_arrays w1)(buffer q1 \<mapsto>
                      (arr[?i := signal])[unat (head q1 AND (q_capacity q1 - 1)) := NULL]),
                  queues := (queues w1)(queue \<mapsto>
                      q1\<lparr>head := head q1 + 1, q_count := q_count q1 - 1,
                        total_dequeued := total_dequeued q1 + 1\<rparr>)\<rparr>)"
    by (rule dequeue_nonempty[OF ok1 q1 arr1 ne])
  moreover have "(arr[?i := signal]) ! unat (head q1 AND (q_capacity q1 - 1)) = signal"
    using idx ht by (simp add: q1_def)
  ultimately show ?thesis using e by (simp add: q1_def)
qed

theorem enqueue_dequeue_roundtrip_witness:
  "mailbox_inv ex_world2 ex_queue \<and> queues ex_world2 ex_queue = Some ex_q0 \<and>
   q_count ex_q0 = 0 \<and> ex_signal \<noteq> NULL \<and> signals ex_world2 ex_signal = Some ex_sig0 \<and>
   (\<exists>w1 w2 q2.
       signal_queue_enqueue ex_queue ex_signal ex_world2 = Inr (SIGNAL_OK, w1) \<and>
       signal_queue_dequeue ex_queue w1 = Inr (ex_signal, w2) \<and>
       queues w2 ex_queue = Some q2 \<and>
       total_enqueued q2 = total_enqueued ex_q0 + 1 \<and>
       total_dequeued q2 = total_dequeued ex_q0 + 1)"
  using enqueue_dequeue_roundtrip[OF ex_world2_inv, of ex_q0 ex_signal ex_sig0] ex_world2_inv
  by (simp add: ex_world2_sel ex_world1_sel ex_q0_def)

subsection \<open>The counters of a mailbox over its lifetime\<close>

text \<open>
  Claim C2, as the code has it. Starting from a mailbox freshly made by
  \<open>signal_queue_create\<close>, after any finite sequence of \<open>signal_queue_enqueue\<close> (of
  null or live signal pointers) and \<open>signal_queue_dequeue\<close> calls, the sequence has run
  without fault and \<open>0 \<le> count \<le> capacity\<close> and
  \<open>total_enqueued - total_dequeued == count\<close> hold (32-bit unsigned arithmetic). A
  rejected enqueue increments \<open>dropped_count\<close> only, never \<open>total_enqueued\<close>, so the
  drop counter has no place in the relation.
\<close>

theorem mailbox_counters_invariant:
  assumes "signal_queue_create c w0 = (queue, w1)" and "queue \<noteq> NULL"
    and "list_all (op_valid w1) ops"
  shows "\<exists>w q. queue_run queue ops w1 = Inr w \<and> queues w queue = Some q \<and>
               0 \<le> q_count q \<and> q_count q \<le> q_capacity q \<and>
               total_enqueued q - total_dequeued q = q_count q"
proof -
  have "mailbox_inv w1 queue" using assms(1,2) by (rule create_establishes_inv)
  from queue_run_inv[OF this assms(3)] obtain w where
    "queue_run queue ops w1 = Inr w" "mailbox_inv w queue" by blast
  then show ?thesis by (auto simp: mailbox_inv_def split: option.splits)
qed

theorem mailbox_counters_invariant_witness:
  "signal_queue_create 1 ex_world1 = (ex_queue, ex_world2) \<and> ex_queue \<noteq> NULL \<and>
   list_all (op_valid ex_world2) [Enqueue ex_signal, Enqueue NULL, Enqueue ex_signal, Dequeue] \<and>
   (\<exists>w q. queue_run ex_queue [Enqueue ex_signal, Enqueue NULL, Enqueue ex_signal, Dequeue] ex_world2
              = Inr w \<and>
          queues w ex_queue = Some q \<and> 0 \<le> q_count q \<and> q_count q \<le> q_capacity q \<and>
          total_enqueued q - total_dequeued q = q_count q)"
  using mailbox_counters_invariant[OF ex_create, of
      "[Enqueue ex_signal, Enqueue NULL, Enqueue ex_signal, Dequeue]"] ex_create
  by (simp add: ex_world2_sel ex_world1_sel)

text \<open>
  The relation as the specification words it,
  \<open>total_enqueued - total_dequeued - dropped == count\<close>, fails as soon as one signal has
  been dropped: a mailbox of capacity one, two enqueues. The second is rejected, leaving
  \<open>total_enqueued = 1\<close>, \<open>total_dequeued = 0\<close>, \<open>dropped_count = 1\<close> and
  \<open>count = 1\<close>.
\<close>

theorem spec_counter_law_counterexample:
  "signal_queue_create 1 ex_world1 = (ex_queue, ex_world2) \<and>
   queue_run ex_queue [Enqueue ex_signal, Enqueue ex_signal] ex_world2 = Inr ex_world4 \<and>
   queues ex_world4 ex_queue =
     Some (ex_q0\<lparr>tail := 1, q_count := 1, total_enqueued := 1, dropped_count := 1,
                 q_flags := 3\<rparr>) \<and>
   \<not> spec_counter_law (ex_q0\<lparr>tail := 1, q_count := 1, total_enqueued := 1,
                              dropped_count := 1, q_flags := 3\<rparr>)"
  using ex_create ex_run_two_enqueues
  by (simp add: ex_world4_sel ex_world2_sel spec_counter_law_def ex_q0_def)

subsection \<open>Releasing a signal\<close>

lemma heap_free_eq:
  assumes "p \<noteq> NULL" "n \<noteq> 0"
  shows "heap_free p n w =
     (0, (release p w)\<lparr>g_heap := (g_heap w)\<lparr>free_list :=
            \<lparr>fb_addr = p,
             fb_size = (if (n + 7) AND NOT 7 < sizeof_FreeBlock then sizeof_FreeBlock
                        else (n + 7) AND NOT 7)\<rparr> # free_list (g_heap w),
            used := used (g_heap w) -
              (if (n + 7) AND NOT 7 < sizeof_FreeBlock then sizeof_FreeBlock
               else (n + 7) AND NOT 7)\<rparr>\<rparr>)"
  using assms by (simp add: heap_free_def Let_def release_def)

lemma release_sel:
  "signals (release p w) = (signals w)(p := None)"
  "bytes (release p w) = (bytes w)(p := None)"
  "queues (release p w) = (queues w)(p := None)"
  "ptr_arrays (release p w) = (ptr_arrays w)(p := None)"
  "g_heap (release p w) = g_heap w"
  by (simp_all add: release_def)

lemma ucast_32_64_eq_0:
  fixes c :: "32 word"
  shows "((ucast c :: 64 word) = 0) = (c = 0)"
proof -
  have lt: "unat c < 2 ^ 32" using unsigned_less[of c, where 'a=nat] by simp
  then have uc: "unat (ucast c :: 64 word) = unat c"
    by (simp add: unsigned_ucast_eq take_bit_nat_eq_self)
  show ?thesis using uc by (metis unat_eq_0)
qed

lemma heap_free_other:
  assumes "a \<noteq> p"
  shows "signals (snd (heap_free p n w)) a = signals w a"
    "queues (snd (heap_free p n w)) a = queues w a"
    "ptr_arrays (snd (heap_free p n w)) a = ptr_arrays w a"
    "bytes (snd (heap_free p n w)) a = bytes w a"
  using assms by (simp_all add: heap_free_def Let_def release_def)

lemma heap_free_released:
  assumes "p \<noteq> NULL" "n \<noteq> 0"
  shows "signals (snd (heap_free p n w)) p = None" "bytes (snd (heap_free p n w)) p = None"
  using assms by (simp_all add: heap_free_eq release_sel)

lemma signal_ref_wrap:
  assumes "sig \<noteq> NULL" "signals w sig = Some s" "ref_count s = 65535"
  shows "signal_ref sig w = Inr (w\<lparr>signals := (signals w)(sig \<mapsto> s\<lparr>ref_count := 0\<rparr>)\<rparr>)"
proof -
  have z: "(65536 :: 16 word) = 0"
    by (simp add: word_eq_iff_unsigned[where 'a=nat])
  show ?thesis using assms by (simp add: signal_ref_def deref_Some z)
qed

lemma signal_free_header_eq:
  assumes "sig \<noteq> NULL" "signals w sig = Some s"
    "sig_flags s AND SIGNAL_FLAG_HEAP_ALLOCATED \<noteq> 0"
  shows "signal_free_header sig w =
     Inr ((release sig w)\<lparr>g_heap := (g_heap w)\<lparr>free_list :=
            \<lparr>fb_addr = sig, fb_size = 32\<rparr> # free_list (g_heap w),
            used := used (g_heap w) - 32\<rparr>\<rparr>)"
  using assms
  by (simp add: signal_free_header_def deref_Some heap_free_eq sizeof_Signal_def
      sizeof_FreeBlock_def)

lemma signal_free_payload_none:
  assumes "sig \<noteq> NULL" "signals w sig = Some s"
    "sig_flags s AND SIGNAL_FLAG_OWNS_PAYLOAD = 0 \<or> payload_ptr s = NULL"
  shows "signal_free_payload sig w = Inr w"
  using assms by (auto simp: signal_free_payload_def deref_Some)

lemma signal_free_payload_owned:
  assumes "sig \<noteq> NULL" "signals w sig = Some s"
    "sig_flags s AND SIGNAL_FLAG_OWNS_PAYLOAD \<noteq> 0" "payload_ptr s \<noteq> NULL"
    "payload_ptr s \<noteq> sig"
  shows "signal_free_payload sig w =
     Inr ((snd (heap_free (payload_ptr s) (ucast (payload_capacity s)) w))
           \<lparr>signals := (signals (snd (heap_free (payload_ptr s) (ucast (payload_capacity s)) w)))
                          (sig \<mapsto> s\<lparr>payload_ptr := NULL\<rparr>)\<rparr>)"
  using assms heap_free_other(1)[of sig "payload_ptr s" "ucast (payload_capacity s)" w]
  by (simp add: signal_free_payload_def deref_Some Let_def)

subsection \<open>The reference count wraps\<close>

text \<open>
  Claim C10. \<open>signal_ref\<close> does not saturate. On a heap-allocated signal whose 16-bit
  \<open>ref_count\<close> is 65535 it leaves \<open>ref_count = 0\<close>; a single \<open>signal_free\<close> then
  finds nothing to decrement, sees the count at zero and releases the storage: the header
  goes to the head of the free list (and the payload block too, when owned), and the
  signal is no longer an object. Mailboxes and their rings are untouched, so every slot
  that held the reference still holds it.
\<close>

theorem signal_ref_wraps_to_zero:
  assumes "sig \<noteq> NULL" and "signals w sig = Some s" and "ref_count s = 65535"
    and "sig_flags s AND SIGNAL_FLAG_HEAP_ALLOCATED \<noteq> 0"
    and "payload_ptr s \<noteq> sig"
  shows "\<exists>w1 w2 rest.
           signal_ref sig w = Inr w1 \<and>
           signals w1 sig = Some (s\<lparr>ref_count := 0\<rparr>) \<and>
           signal_free sig w1 = Inr w2 \<and>
           signals w2 sig = None \<and>
           free_list (g_heap w2) = \<lparr>fb_addr = sig, fb_size = 32\<rparr> # rest \<and>
           (sig_flags s AND SIGNAL_FLAG_OWNS_PAYLOAD \<noteq> 0 \<and> payload_ptr s \<noteq> NULL \<and>
            payload_capacity s \<noteq> 0 \<longrightarrow> bytes w2 (payload_ptr s) = None) \<and>
           (\<forall>a. a \<noteq> sig \<and> a \<noteq> payload_ptr s \<longrightarrow>
                 queues w2 a = queues w a \<and> ptr_arrays w2 a = ptr_arrays w a)"
proof -
  define s0 where "s0 = s\<lparr>ref_count := 0\<rparr>"
  define w1 where "w1 = w\<lparr>signals := (signals w)(sig \<mapsto> s0)\<rparr>"
  have r: "signal_ref sig w = Inr w1"
    using signal_ref_wrap[OF assms(1-3)] by (simp add: w1_def s0_def)
  have s1: "signals w1 sig = Some s0" by (simp add: w1_def)
  have w1w1: "w1\<lparr>signals := (signals w1)(sig \<mapsto> s0)\<rparr> = w1" by (simp add: w1_def)
  have fr: "signal_free sig w1 =
      (case signal_free_payload sig w1 of Inl f \<Rightarrow> Inl f | Inr w2 \<Rightarrow> signal_free_header sig w2)"
    using assms(1) s1 by (simp add: signal_free_def deref_Some Let_def w1w1) (simp add: s0_def)
  have hs0: "sig_flags s0 AND SIGNAL_FLAG_HEAP_ALLOCATED \<noteq> 0" using assms(4) by (simp add: s0_def)
  show ?thesis
  proof (cases "sig_flags s AND SIGNAL_FLAG_OWNS_PAYLOAD \<noteq> 0 \<and> payload_ptr s \<noteq> NULL")
    case False
    then have "signal_free_payload sig w1 = Inr w1"
      using signal_free_payload_none[OF assms(1) s1] by (auto simp: s0_def)
    then have "signal_free sig w1 = signal_free_header sig w1" using fr by simp
    with signal_free_header_eq[OF assms(1) s1 hs0] r s1 False show ?thesis
      by (auto simp: release_sel w1_def s0_def)
  next
    case True
    define wp where "wp = snd (heap_free (payload_ptr s) (ucast (payload_capacity s)) w1)"
    define w1' where "w1' = wp\<lparr>signals := (signals wp)(sig \<mapsto> s0\<lparr>payload_ptr := NULL\<rparr>)\<rparr>"
    have "signal_free_payload sig w1 = Inr w1'"
      using signal_free_payload_owned[OF assms(1) s1] True assms(5)
      by (simp add: s0_def w1'_def wp_def)
    then have f: "signal_free sig w1 = signal_free_header sig w1'" using fr by simp
    have s1': "signals w1' sig = Some (s0\<lparr>payload_ptr := NULL\<rparr>)" by (simp add: w1'_def)
    have hs1: "sig_flags (s0\<lparr>payload_ptr := NULL\<rparr>) AND SIGNAL_FLAG_HEAP_ALLOCATED \<noteq> 0"
      using hs0 by simp
    note h = signal_free_header_eq[OF assms(1) s1' hs1]
    have cap: "payload_capacity s \<noteq> 0 \<Longrightarrow> (ucast (payload_capacity s) :: 64 word) \<noteq> 0"
      by (simp add: ucast_32_64_eq_0)
    have b: "payload_capacity s \<noteq> 0 \<Longrightarrow> bytes wp (payload_ptr s) = None"
      using heap_free_released(2)[of "payload_ptr s" "ucast (payload_capacity s)" w1] True cap
      by (simp add: wp_def)
    have o: "\<And>a. a \<noteq> payload_ptr s \<Longrightarrow> queues wp a = queues w a \<and> ptr_arrays wp a = ptr_arrays w a"
      using heap_free_other(2,3)[of _ "payload_ptr s" "ucast (payload_capacity s)" w1]
      by (simp add: wp_def w1_def)
    show ?thesis
      using r s1 f h b o
      by (auto simp: release_sel w1'_def s0_def)
  qed
qed

theorem signal_ref_wraps_to_zero_witness:
  "ex_signal \<noteq> NULL \<and>
   signals ex_world_sat ex_signal = Some (ex_sig0\<lparr>ref_count := 65535\<rparr>) \<and>
   ptr_arrays ex_world_sat 65624 = Some [ex_signal] \<and>
   (\<exists>w1 w2.
       signal_ref ex_signal ex_world_sat = Inr w1 \<and>
       signals w1 ex_signal = Some (ex_sig0\<lparr>ref_count := 0\<rparr>) \<and>
       signal_free ex_signal w1 = Inr w2 \<and>
       signals w2 ex_signal = None \<and>
       ptr_arrays w2 65624 = Some [ex_signal])"
proof -
  have h: "ex_signal \<noteq> NULL"
    "signals ex_world_sat ex_signal = Some (ex_sig0\<lparr>ref_count := 65535\<rparr>)"
    "ref_count (ex_sig0\<lparr>ref_count := 65535\<rparr>) = 65535"
    "sig_flags (ex_sig0\<lparr>ref_count := 65535\<rparr>) AND SIGNAL_FLAG_HEAP_ALLOCATED \<noteq> 0"
    "payload_ptr (ex_sig0\<lparr>ref_count := 65535\<rparr>) \<noteq> ex_signal"
    by (simp_all add: ex_world_sat_def ex_world1_sel ex_sig0_def SIGNAL_FLAG_HEAP_ALLOCATED_def)
  have ring: "ptr_arrays ex_world_sat 65624 = Some [ex_signal]"
    by (simp add: ex_world_sat_def ex_world3_sel ex_world1_sel)
  from signal_ref_wraps_to_zero[OF h] obtain w1 w2 where
    a: "signal_ref ex_signal ex_world_sat = Inr w1"
      "signals w1 ex_signal = Some (ex_sig0\<lparr>ref_count := 65535, ref_count := 0\<rparr>)"
      "signal_free ex_signal w1 = Inr w2" "signals w2 ex_signal = None"
    and o: "\<forall>a. a \<noteq> ex_signal \<and> a \<noteq> payload_ptr (ex_sig0\<lparr>ref_count := 65535\<rparr>) \<longrightarrow>
                 queues w2 a = queues ex_world_sat a \<and> ptr_arrays w2 a = ptr_arrays ex_world_sat a"
    by blast
  have "ptr_arrays w2 65624 = ptr_arrays ex_world_sat 65624"
    using o by (simp add: ex_world1_sel ex_sig0_def)
  with a h ring show ?thesis by auto
qed

subsection \<open>The allocator\<close>









lemma ex_world1_heap:
  "g_heap ex_world1 = \<lparr>base = 65536, current = 65568, heap_end = 65536 + 16777216,
                             total_size = 16777216, used = 32, peak_used = 32, free_list = []\<rparr>"
  "g_heap_initialized ex_world1"
  "rdtsc ex_world1 = (\<lambda>n. of_nat n)"
  "rdtsc_reads ex_world1 = 1"
  by (simp_all add: ex_world1_def ex_signal_alloc fresh_world_sel)


subsection \<open>Creating a signal with a payload\<close>




lemma ex_world_full_sel:
  "g_heap ex_world_full = \<lparr>base = 65536, current = 65536 + 16777216, heap_end = 65536 + 16777216,
                             total_size = 16777216, used = 16777216, peak_used = 16777216,
                             free_list = []\<rparr>"
  "g_heap_initialized ex_world_full"
  "bytes ex_world_full 32 = Some [1, 2, 3, 4]"
  "signals ex_world_full = signals ex_world1"
  by (simp_all add: ex_world_full_def ex_world_payload_def heap_allocate_def Let_def
      sizeof_FreeBlock_def ex_world1_heap)

lemma ex_world_full_create:
  "signal_create 7 1 32 4 ex_world_full = Inr (NULL, ex_world_full)"
  by (simp add: signal_create_def signal_alloc_def heap_allocate_def Let_def
      sizeof_Signal_def sizeof_FreeBlock_def ex_world_full_sel MAX_PAYLOAD_SIZE_def)




subsection \<open>Dispatch: the scan and the two paths\<close>

lemma array_get_Some:
  assumes "p \<noteq> NULL" "m p = Some xs" "i < length xs"
  shows "array_get m p i = Inr (xs ! i)"
  using assms by (simp add: array_get_def deref_Some)

lemma dispatch_scan_step:
  assumes "dt_entries t \<noteq> NULL" "dispatch_entries w (dt_entries t) = Some es"
    "unat (dt_entry_count t) \<le> length es" "i < unat (dt_entry_count t)"
  shows "dispatch_scan w t f i =
           (if active_match (es ! i) f then Inr (Some i) else dispatch_scan w t f (Suc i))"
proof -
  have "i < length es" using assms(3,4) by simp
  from array_get_Some[of "dt_entries t" "dispatch_entries w" es i, OF assms(1,2) this] assms(4)
  show ?thesis
    by (subst dispatch_scan.simps) (simp add: active_match_def)
qed

lemma dispatch_scan_none:
  assumes "dt_entries t \<noteq> NULL" "dispatch_entries w (dt_entries t) = Some es"
    "unat (dt_entry_count t) \<le> length es"
    and "\<forall>j. i \<le> j \<and> j < unat (dt_entry_count t) \<longrightarrow> \<not> active_match (es ! j) f"
  shows "dispatch_scan w t f i = Inr None"
  using assms(4)
proof (induction "unat (dt_entry_count t) - i" arbitrary: i)
  case 0
  then show ?case by (subst dispatch_scan.simps) simp
next
  case (Suc d)
  then have lt: "i < unat (dt_entry_count t)" by simp
  have "dispatch_scan w t f (Suc i) = Inr None"
    using Suc.hyps(1)[of "Suc i"] Suc.hyps(2) Suc.prems by simp
  then show ?case using dispatch_scan_step[OF assms(1-3) lt] Suc.prems lt by simp
qed

lemma dispatch_scan_first:
  assumes "dt_entries t \<noteq> NULL" "dispatch_entries w (dt_entries t) = Some es"
    "unat (dt_entry_count t) \<le> length es"
    and "k < unat (dt_entry_count t)" "active_match (es ! k) f"
    and "i \<le> k" "\<forall>j. i \<le> j \<and> j < k \<longrightarrow> \<not> active_match (es ! j) f"
  shows "dispatch_scan w t f i = Inr (Some k)"
  using assms(6,7)
proof (induction "k - i" arbitrary: i)
  case 0
  then have "i = k" by simp
  then show ?case using dispatch_scan_step[OF assms(1-3), of k f] assms(4,5) by simp
next
  case (Suc d)
  then have lt: "i < k" by simp
  then have li: "i < unat (dt_entry_count t)" using assms(4) by simp
  have nm: "\<not> active_match (es ! i) f" using Suc.prems lt by simp
  have "dispatch_scan w t f (Suc i) = Inr (Some k)"
    using Suc.hyps(1)[of "Suc i"] Suc.hyps(2) Suc.prems lt by simp
  then show ?case using dispatch_scan_step[OF assms(1-3) li] nm by simp
qed

lemma dispatch_miss_eq:
  assumes tbl: "table \<noteq> NULL" "dispatch_tables w table = Some t"
    and sg: "signal \<noteq> NULL" "signals w signal = Some s"
    and ent: "dt_entries t \<noteq> NULL" "dispatch_entries w (dt_entries t) = Some es"
      "unat (dt_entry_count t) \<le> length es"
    and none: "\<forall>j < unat (dt_entry_count t). \<not> active_match (es ! j) (ucast (sig_frequency_id s))"
  shows "dispatch_invoke_with_state prog table st signal w =
     (if default_handler t \<noteq> NULL then
        (case call_fn prog (default_handler t) st signal
                (w\<lparr>dispatch_tables := (dispatch_tables w)(table \<mapsto>
                     t\<lparr>lookup_count := lookup_count t + 1, miss_count := miss_count t + 1\<rparr>)\<rparr>) of
           Inl f \<Rightarrow> Inl f
         | Inr (result, w3) \<Rightarrow>
             if result \<noteq> 0 then Inr (DISPATCH_ERR_HANDLER_FAILED, w3) else Inr (DISPATCH_OK, w3))
      else Inr (DISPATCH_ERR_NO_HANDLER,
                w\<lparr>dispatch_tables := (dispatch_tables w)(table \<mapsto>
                     t\<lparr>lookup_count := lookup_count t + 1, miss_count := miss_count t + 1\<rparr>)\<rparr>))"
proof -
  define t1 where "t1 = t\<lparr>lookup_count := lookup_count t + 1\<rparr>"
  define w1 where "w1 = w\<lparr>dispatch_tables := (dispatch_tables w)(table \<mapsto> t1)\<rparr>"
  have e1: "dt_entries t1 \<noteq> NULL" "dispatch_entries w1 (dt_entries t1) = Some es"
    "unat (dt_entry_count t1) \<le> length es"
    using ent by (simp_all add: t1_def w1_def)
  have "dispatch_scan w1 t1 (ucast (sig_frequency_id s)) 0 = Inr None"
    using dispatch_scan_none[OF e1, of 0 "ucast (sig_frequency_id s)"] none by (simp add: t1_def)
  then have lk: "dispatch_lookup_entry table (ucast (sig_frequency_id s)) w1 = Inr None"
    using tbl(1) by (simp add: dispatch_lookup_entry_def deref_Some w1_def)
  show ?thesis
    using tbl sg lk
    by (simp add: dispatch_invoke_with_state_def deref_Some Let_def t1_def w1_def)
qed

lemma dispatch_hit_eq:
  assumes tbl: "table \<noteq> NULL" "dispatch_tables w table = Some t"
    and sg: "signal \<noteq> NULL" "signals w signal = Some s"
    and ent: "dt_entries t \<noteq> NULL" "dispatch_entries w (dt_entries t) = Some es"
      "unat (dt_entry_count t) \<le> length es"
    and hit: "i < unat (dt_entry_count t)" "active_match (es ! i) (ucast (sig_frequency_id s))"
      "\<forall>j < i. \<not> active_match (es ! j) (ucast (sig_frequency_id s))"
  shows "dispatch_invoke_with_state prog table st signal w =
     (case (if DISPATCH_FLAG_HAS_GUARD \<in> de_flags (es ! i) \<and> guard (es ! i) \<noteq> NULL
            then call_fn prog (guard (es ! i)) st signal
                   (w\<lparr>dispatch_tables := (dispatch_tables w)(table \<mapsto>
                        t\<lparr>lookup_count := lookup_count t + 1, hit_count := hit_count t + 1\<rparr>)\<rparr>)
            else Inr (1, w\<lparr>dispatch_tables := (dispatch_tables w)(table \<mapsto>
                        t\<lparr>lookup_count := lookup_count t + 1, hit_count := hit_count t + 1\<rparr>)\<rparr>)) of
        Inl f \<Rightarrow> Inl f
      | Inr (guard_result, w3) \<Rightarrow>
          if guard_result = 0 then Inr (DISPATCH_ERR_GUARD_FAILED, w3)
          else
            case array_get (dispatch_entries w3) (dt_entries t) i of
              Inl f \<Rightarrow> Inl f
            | Inr entry1 \<Rightarrow>
                case call_fn prog (handler entry1) st signal w3 of
                  Inl f \<Rightarrow> Inl f
                | Inr (handler_result, w4) \<Rightarrow>
                    if handler_result \<noteq> 0
                    then Inr (DISPATCH_ERR_HANDLER_FAILED, w4)
                    else Inr (DISPATCH_OK, w4))"
proof -
  define t1 where "t1 = t\<lparr>lookup_count := lookup_count t + 1\<rparr>"
  define w1 where "w1 = w\<lparr>dispatch_tables := (dispatch_tables w)(table \<mapsto> t1)\<rparr>"
  have e1: "dt_entries t1 \<noteq> NULL" "dispatch_entries w1 (dt_entries t1) = Some es"
    "unat (dt_entry_count t1) \<le> length es"
    using ent by (simp_all add: t1_def w1_def)
  have "dispatch_scan w1 t1 (ucast (sig_frequency_id s)) 0 = Inr (Some i)"
    using dispatch_scan_first[OF e1, of i "ucast (sig_frequency_id s)" 0] hit by (simp add: t1_def)
  then have lk: "dispatch_lookup_entry table (ucast (sig_frequency_id s)) w1 = Inr (Some i)"
    using tbl(1) by (simp add: dispatch_lookup_entry_def deref_Some w1_def)
  have il: "i < length es" using hit(1) ent(3) by simp
  have ag: "array_get (dispatch_entries w) (dt_entries t) i = Inr (es ! i)"
    using array_get_Some[of "dt_entries t" "dispatch_entries w" es i] ent il by simp
  show ?thesis
    using tbl sg lk ag
    by (simp add: dispatch_invoke_with_state_def deref_Some Let_def t1_def w1_def
        cong: sum.case_cong prod.case_cong if_cong)
qed

lemma ex_dispatch_sel:
  "dispatch_tables ex_dispatch_world 500 = Some ex_table"
  "dispatch_tables ex_dispatch_world 501 = Some (ex_table\<lparr>dt_entries := 601, default_handler := 1001\<rparr>)"
  "dispatch_entries ex_dispatch_world 600 = Some ex_entries"
  "dispatch_entries ex_dispatch_world 601 = Some ex_entries"
  "signals ex_dispatch_world 700 = Some (ex_signal_of 1)"
  "signals ex_dispatch_world 701 = Some (ex_signal_of 4)"
  "signals ex_dispatch_world 702 = Some (ex_signal_of 5)"
  "signals ex_dispatch_world 703 = Some (ex_signal_of 99)"
  by (simp_all add: ex_dispatch_world_def)

lemma ex_entries_nth:
  "length ex_entries = 4"
  "ex_entries ! 0 = \<lparr>de_frequency_id = 1, de_flags = {DISPATCH_FLAG_ACTIVE}, handler = 1000, guard = NULL\<rparr>"
  "ex_entries ! Suc 0 = \<lparr>de_frequency_id = 4, de_flags = {DISPATCH_FLAG_ACTIVE, DISPATCH_FLAG_HAS_GUARD},
       handler = 1000, guard = 1002\<rparr>"
  "ex_entries ! 2 = \<lparr>de_frequency_id = 5, de_flags = {DISPATCH_FLAG_ACTIVE, DISPATCH_FLAG_HAS_GUARD},
       handler = 1001, guard = 1003\<rparr>"
  by (simp_all add: ex_entries_def)

lemma all_less_3: "(\<forall>j<(3::nat). P j) = (P 0 \<and> P (Suc 0) \<and> P 2)"
proof -
  have "\<And>j. (j < (3::nat)) = (j = 0 \<or> j = Suc 0 \<or> j = 2)" by auto
  then show ?thesis by auto
qed

lemma all_less_2: "(\<forall>j<(2::nat). P j) = (P 0 \<and> P (Suc 0))"
proof -
  have "\<And>j. (j < (2::nat)) = (j = 0 \<or> j = Suc 0)" by auto
  then show ?thesis by auto
qed

lemma ex_calls:
  "call_fn ex_prog 1000 a b w = Inr (0, w\<lparr>user := Suc (user w)\<rparr>)"
  "call_fn ex_prog 1001 a b w = Inr (- 1, w)"
  "call_fn ex_prog 1002 a b w = Inr (0, w)"
  "call_fn ex_prog 1003 a b w = Inr (1, w)"
  by (simp_all add: call_fn_def ex_prog_def deref_def)

lemmas ex_dispatch_simps = ex_dispatch_sel ex_entries_nth ex_calls ex_table_def ex_signal_of_def
  active_match_def all_less_3 all_less_2 array_get_def deref_def

subsection \<open>The outcomes of dispatch\<close>

text \<open>
  Claim C4. For a live table (its entry array holds at least \<open>entry_count\<close> entries)
  and a live signal of kind \<open>kind\<close>, \<open>dispatch_invoke_with_state\<close>

  \<^item> returns \<open>DISPATCH_ERR_NO_HANDLER\<close> if and only if no active entry matches the kind
    and no default handler is installed;
  \<^item> when no entry matches and a default handler exists, calls the default on the state
    with the lookup and miss counters incremented, and returns
    \<open>DISPATCH_ERR_HANDLER_FAILED\<close> if the default returns non-zero, else
    \<open>DISPATCH_OK\<close>;
  \<^item> when the first matching entry has a guard and the guard returns zero, returns
    \<open>DISPATCH_ERR_GUARD_FAILED\<close> in the very state the guard left: the handler is not
    called;
  \<^item> otherwise (no guard, or the guard returned non-zero) calls the entry's handler and
    returns \<open>DISPATCH_ERR_HANDLER_FAILED\<close> if it returns non-zero, else \<open>DISPATCH_OK\<close>.
\<close>

theorem dispatch_invoke_with_state_outcomes:
  fixes prog :: "'u code" and w :: "'u world"
  assumes tbl: "table \<noteq> NULL" "dispatch_tables w table = Some t"
    and sg: "signal \<noteq> NULL" "signals w signal = Some s"
    and ent: "dt_entries t \<noteq> NULL" "dispatch_entries w (dt_entries t) = Some es"
      "unat (dt_entry_count t) \<le> length es"
  defines "kind \<equiv> ucast (sig_frequency_id s)"
    and "n \<equiv> unat (dt_entry_count t)"
    and "w_miss \<equiv> w\<lparr>dispatch_tables := (dispatch_tables w)(table \<mapsto>
                     t\<lparr>lookup_count := lookup_count t + 1, miss_count := miss_count t + 1\<rparr>)\<rparr>"
    and "w_hit \<equiv> w\<lparr>dispatch_tables := (dispatch_tables w)(table \<mapsto>
                     t\<lparr>lookup_count := lookup_count t + 1, hit_count := hit_count t + 1\<rparr>)\<rparr>"
  shows "((\<exists>w'. dispatch_invoke_with_state prog table st signal w =
                  Inr (DISPATCH_ERR_NO_HANDLER, w')) \<longleftrightarrow>
          ((\<forall>j<n. \<not> active_match (es ! j) kind) \<and> default_handler t = NULL)) \<and>
         ((\<forall>j<n. \<not> active_match (es ! j) kind) \<and> default_handler t \<noteq> NULL \<and>
          call_fn prog (default_handler t) st signal w_miss = Inr (r, wd) \<longrightarrow>
            dispatch_invoke_with_state prog table st signal w =
              Inr (if r \<noteq> 0 then DISPATCH_ERR_HANDLER_FAILED else DISPATCH_OK, wd)) \<and>
         (i < n \<and> active_match (es ! i) kind \<and> (\<forall>j<i. \<not> active_match (es ! j) kind) \<and>
          DISPATCH_FLAG_HAS_GUARD \<in> de_flags (es ! i) \<and> guard (es ! i) \<noteq> NULL \<and>
          call_fn prog (guard (es ! i)) st signal w_hit = Inr (0, wg) \<longrightarrow>
            dispatch_invoke_with_state prog table st signal w =
              Inr (DISPATCH_ERR_GUARD_FAILED, wg)) \<and>
         (i < n \<and> active_match (es ! i) kind \<and> (\<forall>j<i. \<not> active_match (es ! j) kind) \<and>
          ((DISPATCH_FLAG_HAS_GUARD \<notin> de_flags (es ! i) \<or> guard (es ! i) = NULL) \<and> wp = w_hit \<or>
           DISPATCH_FLAG_HAS_GUARD \<in> de_flags (es ! i) \<and> guard (es ! i) \<noteq> NULL \<and>
           (\<exists>g. g \<noteq> 0 \<and> call_fn prog (guard (es ! i)) st signal w_hit = Inr (g, wp))) \<and>
          array_get (dispatch_entries wp) (dt_entries t) i = Inr e \<and>
          call_fn prog (handler e) st signal wp = Inr (hr, wh) \<longrightarrow>
            dispatch_invoke_with_state prog table st signal w =
              Inr (if hr \<noteq> 0 then DISPATCH_ERR_HANDLER_FAILED else DISPATCH_OK, wh))"
proof (intro conjI)
  let ?D = "dispatch_invoke_with_state prog table st signal w"
  let ?none = "\<forall>j<n. \<not> active_match (es ! j) kind"
  note miss = dispatch_miss_eq[OF tbl sg ent, of prog st, folded kind_def n_def w_miss_def]
  note hit = dispatch_hit_eq[OF tbl sg ent, of _ prog st, folded kind_def n_def w_hit_def]
  show "(\<exists>w'. ?D = Inr (DISPATCH_ERR_NO_HANDLER, w')) \<longleftrightarrow> (?none \<and> default_handler t = NULL)"
  proof
    assume "?none \<and> default_handler t = NULL"
    then show "\<exists>w'. ?D = Inr (DISPATCH_ERR_NO_HANDLER, w')" using miss by simp
  next
    assume nh: "\<exists>w'. ?D = Inr (DISPATCH_ERR_NO_HANDLER, w')"
    show "?none \<and> default_handler t = NULL"
    proof (cases ?none)
      case True
      with miss nh show ?thesis by (auto split: if_splits sum.splits prod.splits)
    next
      case False
      define k where "k = (LEAST j. j < n \<and> active_match (es ! j) kind)"
      from False have ex: "\<exists>j. j < n \<and> active_match (es ! j) kind" by auto
      from LeastI_ex[OF ex] have k: "k < n" "active_match (es ! k) kind" by (auto simp: k_def)
      have "\<forall>j<k. \<not> active_match (es ! j) kind"
      proof (intro allI impI)
        fix j assume "j < k"
        then have "\<not> (j < n \<and> active_match (es ! j) kind)"
          unfolding k_def by (rule not_less_Least)
        moreover have "j < n" using \<open>j < k\<close> k(1) by simp
        ultimately show "\<not> active_match (es ! j) kind" by simp
      qed
      from hit[OF k this] nh show ?thesis
        by (auto split: if_splits sum.splits prod.splits)
    qed
  qed
  show "?none \<and> default_handler t \<noteq> NULL \<and>
          call_fn prog (default_handler t) st signal w_miss = Inr (r, wd) \<longrightarrow>
            ?D = Inr (if r \<noteq> 0 then DISPATCH_ERR_HANDLER_FAILED else DISPATCH_OK, wd)"
    using miss by simp
  show "i < n \<and> active_match (es ! i) kind \<and> (\<forall>j<i. \<not> active_match (es ! j) kind) \<and>
          DISPATCH_FLAG_HAS_GUARD \<in> de_flags (es ! i) \<and> guard (es ! i) \<noteq> NULL \<and>
          call_fn prog (guard (es ! i)) st signal w_hit = Inr (0, wg) \<longrightarrow>
            ?D = Inr (DISPATCH_ERR_GUARD_FAILED, wg)"
    using hit[of i] by simp
  show "i < n \<and> active_match (es ! i) kind \<and> (\<forall>j<i. \<not> active_match (es ! j) kind) \<and>
          ((DISPATCH_FLAG_HAS_GUARD \<notin> de_flags (es ! i) \<or> guard (es ! i) = NULL) \<and> wp = w_hit \<or>
           DISPATCH_FLAG_HAS_GUARD \<in> de_flags (es ! i) \<and> guard (es ! i) \<noteq> NULL \<and>
           (\<exists>g. g \<noteq> 0 \<and> call_fn prog (guard (es ! i)) st signal w_hit = Inr (g, wp))) \<and>
          array_get (dispatch_entries wp) (dt_entries t) i = Inr e \<and>
          call_fn prog (handler e) st signal wp = Inr (hr, wh) \<longrightarrow>
            ?D = Inr (if hr \<noteq> 0 then DISPATCH_ERR_HANDLER_FAILED else DISPATCH_OK, wh)"
    using hit[of i] by auto
qed

theorem dispatch_invoke_with_state_outcomes_witness:
  "(\<exists>w'. dispatch_invoke_with_state ex_prog 500 900 703 ex_dispatch_world =
            Inr (DISPATCH_ERR_NO_HANDLER, w')) \<and>
   dispatch_invoke_with_state ex_prog 501 900 703 ex_dispatch_world =
     Inr (DISPATCH_ERR_HANDLER_FAILED,
          ex_dispatch_world\<lparr>dispatch_tables := (dispatch_tables ex_dispatch_world)(501 \<mapsto>
             ex_table\<lparr>dt_entries := 601, default_handler := 1001, lookup_count := 1, miss_count := 1\<rparr>)\<rparr>) \<and>
   dispatch_invoke_with_state ex_prog 500 900 701 ex_dispatch_world =
     Inr (DISPATCH_ERR_GUARD_FAILED,
          ex_dispatch_world\<lparr>dispatch_tables := (dispatch_tables ex_dispatch_world)(500 \<mapsto>
             ex_table\<lparr>lookup_count := 1, hit_count := 1\<rparr>)\<rparr>) \<and>
   dispatch_invoke_with_state ex_prog 500 900 700 ex_dispatch_world =
     Inr (DISPATCH_OK,
          ex_dispatch_world\<lparr>dispatch_tables := (dispatch_tables ex_dispatch_world)(500 \<mapsto>
             ex_table\<lparr>lookup_count := 1, hit_count := 1\<rparr>), user := 1\<rparr>) \<and>
   dispatch_invoke_with_state ex_prog 500 900 702 ex_dispatch_world =
     Inr (DISPATCH_ERR_HANDLER_FAILED,
          ex_dispatch_world\<lparr>dispatch_tables := (dispatch_tables ex_dispatch_world)(500 \<mapsto>
             ex_table\<lparr>lookup_count := 1, hit_count := 1\<rparr>)\<rparr>)"
proof -
  let ?wh = "ex_dispatch_world\<lparr>dispatch_tables := (dispatch_tables ex_dispatch_world)(500 \<mapsto>
             ex_table\<lparr>lookup_count := 1, hit_count := 1\<rparr>)\<rparr>"
  have u: "user ex_dispatch_world = 0" "dispatch_entries ?wh = dispatch_entries ex_dispatch_world"
    by (simp_all add: ex_dispatch_world_def)
  have p1: "\<exists>w'. dispatch_invoke_with_state ex_prog 500 900 703 ex_dispatch_world =
            Inr (DISPATCH_ERR_NO_HANDLER, w')"
    using dispatch_invoke_with_state_outcomes[of 500 ex_dispatch_world ex_table 703
        "ex_signal_of 99" ex_entries ex_prog 900]
    by (simp add: ex_dispatch_simps)
  have p2: "dispatch_invoke_with_state ex_prog 501 900 703 ex_dispatch_world =
     Inr (DISPATCH_ERR_HANDLER_FAILED,
          ex_dispatch_world\<lparr>dispatch_tables := (dispatch_tables ex_dispatch_world)(501 \<mapsto>
             ex_table\<lparr>dt_entries := 601, default_handler := 1001, lookup_count := 1, miss_count := 1\<rparr>)\<rparr>)"
    using dispatch_invoke_with_state_outcomes[of 501 ex_dispatch_world
        "ex_table\<lparr>dt_entries := 601, default_handler := 1001\<rparr>" 703
        "ex_signal_of 99" ex_entries ex_prog 900 "- 1"
        "ex_dispatch_world\<lparr>dispatch_tables := (dispatch_tables ex_dispatch_world)(501 \<mapsto>
             ex_table\<lparr>dt_entries := 601, default_handler := 1001, lookup_count := 1, miss_count := 1\<rparr>)\<rparr>"]
    by (simp add: ex_dispatch_simps)
  have p3: "dispatch_invoke_with_state ex_prog 500 900 701 ex_dispatch_world =
     Inr (DISPATCH_ERR_GUARD_FAILED, ?wh)"
    using dispatch_invoke_with_state_outcomes[of 500 ex_dispatch_world ex_table 701
        "ex_signal_of 4" ex_entries ex_prog 900 _ _ 1 ?wh]
    by (simp add: ex_dispatch_simps)
  have p4: "dispatch_invoke_with_state ex_prog 500 900 700 ex_dispatch_world =
     Inr (DISPATCH_OK, ?wh\<lparr>user := 1\<rparr>)"
    using dispatch_invoke_with_state_outcomes[of 500 ex_dispatch_world ex_table 700
        "ex_signal_of 1" ex_entries ex_prog 900 _ _ 0 _ ?wh "ex_entries ! 0" 0 "?wh\<lparr>user := 1\<rparr>"]
    by (simp add: ex_dispatch_simps u)
  have p5: "dispatch_invoke_with_state ex_prog 500 900 702 ex_dispatch_world =
     Inr (DISPATCH_ERR_HANDLER_FAILED, ?wh)"
    using dispatch_invoke_with_state_outcomes[of 500 ex_dispatch_world ex_table 702
        "ex_signal_of 5" ex_entries ex_prog 900 _ _ 2 _ ?wh "ex_entries ! 2" "- 1" ?wh]
    by (simp add: ex_dispatch_simps u)
  from p1 p2 p3 p4 p5 show ?thesis by simp
qed

subsection \<open>Dispatch on a null table\<close>

text \<open>
  Claim C9. \<open>dispatch_invoke\<close> reads \<open>table->agent_state\<close> before any null check: on
  a null table it dereferences the null pointer, whatever the signal and the state.
  \<open>dispatch_invoke_with_state\<close> checks first and returns
  \<open>DISPATCH_ERR_NULL_POINTER\<close>, leaving the state as it was.
\<close>

theorem dispatch_invoke_null_table:
  "dispatch_invoke prog NULL signal w = Inl NullDeref \<and>
   dispatch_invoke_with_state prog NULL agent_st signal w = Inr (DISPATCH_ERR_NULL_POINTER, w)"
  by (simp add: dispatch_invoke_def dispatch_invoke_with_state_def deref_def)

subsection \<open>Routing: the probe loop returns, the delivery loop counts\<close>

























subsection \<open>Broadcast: deliveries and the broadcast flag\<close>




subsection \<open>The scheduler on a network at rest\<close>

lemma quiet_agent_frame:
  "agents w' = agents w \<Longrightarrow> queues w' = queues w \<Longrightarrow> quiet_agent w' = quiet_agent w"
  by (rule ext) (simp add: quiet_agent_def cong: option.case_cong)

lemma quiescent_frame:
  assumes "agents w' = agents w" "queues w' = queues w" "registries w' = registries w"
    "ptr_arrays w' = ptr_arrays w"
  shows "quiescent w' reg = quiescent w reg"
  using assms by (simp add: quiescent_def quiet_agent_frame[OF assms(1,2)] cong: option.case_cong)

lemma sched_phase_idem:
  assumes "schedulers w sched = Some s"
  shows "w\<lparr>schedulers := (schedulers w)(sched \<mapsto> s\<lparr>current_phase := current_phase s\<rparr>)\<rparr> = w"
proof -
  have "(schedulers w)(sched \<mapsto> s) = schedulers w" using assms by (simp add: fun_upd_idem)
  thus ?thesis by simp
qed

lemma cycle_loop_quiet:
  "ptr_arrays w (reg_agents r) = Some as \<Longrightarrow> reg_agents r \<noteq> NULL \<Longrightarrow>
   unat (reg_count r) \<le> length as \<Longrightarrow>
   list_all (quiet_agent w) (take (unat (reg_count r)) as) \<Longrightarrow>
   schedulers w sched = Some s \<Longrightarrow> sched \<noteq> NULL \<Longrightarrow>
   \<exists>ph. cycle_loop sched r i sp w =
           Inr (sp, w\<lparr>schedulers := (schedulers w)(sched \<mapsto> s\<lparr>current_phase := ph\<rparr>)\<rparr>)"
proof (induction "unat (reg_count r) - i" arbitrary: i w s)
  case 0
  hence "\<not> i < unat (reg_count r)" by simp
  hence "cycle_loop sched r i sp w = Inr (sp, w)"
    by (subst cycle_loop.simps) simp
  with sched_phase_idem[OF "0.prems"(5)] show ?case by metis
next
  case (Suc n)
  hence lt: "i < unat (reg_count r)" and n: "n = unat (reg_count r) - Suc i" by simp_all
  from lt Suc.prems(3) have il: "i < length as" by simp
  have get: "array_get (ptr_arrays w) (reg_agents r) i = Inr (as ! i)"
    using array_get_Some[of "reg_agents r" "ptr_arrays w" as i] Suc.prems(1,2) il by simp
  have qa: "quiet_agent w (as ! i)"
    using Suc.prems(4) lt il by (simp add: list_all_length)
  let ?w1 = "w\<lparr>schedulers := (schedulers w)(sched \<mapsto> s\<lparr>current_phase := PHASE_SENSE\<rparr>)\<rparr>"
  have same: "\<exists>ph. cycle_loop sched r (Suc i) sp w =
           Inr (sp, w\<lparr>schedulers := (schedulers w)(sched \<mapsto> s\<lparr>current_phase := ph\<rparr>)\<rparr>)"
    by (rule Suc.hyps(1)[OF n Suc.prems])
  have qf: "quiet_agent ?w1 = quiet_agent w" by (rule quiet_agent_frame) simp_all
  have "\<exists>ph. cycle_loop sched r (Suc i) sp ?w1 =
           Inr (sp, ?w1\<lparr>schedulers := (schedulers ?w1)(sched \<mapsto>
                          (s\<lparr>current_phase := PHASE_SENSE\<rparr>)\<lparr>current_phase := ph\<rparr>)\<rparr>)"
    by (rule Suc.hyps(1)[OF n]) (use Suc.prems qf in simp_all)
  hence sense: "\<exists>ph. cycle_loop sched r (Suc i) sp ?w1 =
           Inr (sp, w\<lparr>schedulers := (schedulers w)(sched \<mapsto> s\<lparr>current_phase := ph\<rparr>)\<rparr>)"
    by simp
  show ?case
  proof (cases "as ! i = NULL")
    case True
    with get lt same show ?thesis by (subst cycle_loop.simps) simp
  next
    case False
    with qa obtain ag where ag: "agents w (as ! i) = Some ag"
      and q: "input_queue ag = NULL \<or>
              (case queues w (input_queue ag) of None \<Rightarrow> False | Some q \<Rightarrow> q_count q = 0)"
      by (auto simp: quiet_agent_def split: option.splits)
    have dag: "deref (agents w) (as ! i) = Inr ag" using False ag by (simp add: deref_Some)
    show ?thesis
    proof (cases "input_queue ag = NULL")
      case True
      with get lt same False dag show ?thesis by (subst cycle_loop.simps) simp
    next
      case nq: False
      with q obtain qu where qu: "queues w (input_queue ag) = Some qu" "q_count qu = 0"
        by (auto split: option.splits)
      have dq: "signal_queue_dequeue (input_queue ag) ?w1 = Inr (NULL, ?w1)"
        by (rule dequeue_empty[where q = qu]) (use qu in simp_all)
      have ds: "deref (schedulers w) sched = Inr s"
        using Suc.prems(5,6) by (simp add: deref_Some)
      from get lt False dag nq ds dq sense show ?thesis
        by (subst cycle_loop.simps) (simp add: Let_def)
    qed
  qed
qed

lemma run_cycle_quiet:
  assumes "sched \<noteq> NULL" "schedulers w sched = Some s" "quiescent w (registry s)"
  shows "\<exists>ph. scheduler_run_cycle sched w =
           Inr (0, w\<lparr>schedulers := (schedulers w)(sched \<mapsto>
                       s\<lparr>current_phase := ph, cycle_count := cycle_count s + 1,
                         empty_cycles := empty_cycles s + 1\<rparr>)\<rparr>)"
proof -
  from assms(3) obtain r as where rn: "registry s \<noteq> NULL"
    and r: "registries w (registry s) = Some r" and an: "reg_agents r \<noteq> NULL"
    and as: "ptr_arrays w (reg_agents r) = Some as" and len: "unat (reg_count r) \<le> length as"
    and qa: "list_all (quiet_agent w) (take (unat (reg_count r)) as)"
    by (auto simp: quiescent_def split: option.splits)
  let ?w1 = "w\<lparr>schedulers := (schedulers w)(sched \<mapsto> s\<lparr>current_phase := PHASE_REST\<rparr>)\<rparr>"
  have qf: "quiet_agent ?w1 = quiet_agent w" by (rule quiet_agent_frame) simp_all
  have "\<exists>ph. cycle_loop sched r 0 0 ?w1 =
           Inr (0, ?w1\<lparr>schedulers := (schedulers ?w1)(sched \<mapsto>
                          (s\<lparr>current_phase := PHASE_REST\<rparr>)\<lparr>current_phase := ph\<rparr>)\<rparr>)"
    by (rule cycle_loop_quiet[where as = as]) (use as an len qa qf assms in simp_all)
  then obtain ph where loop: "cycle_loop sched r 0 0 ?w1 =
           Inr (0, w\<lparr>schedulers := (schedulers w)(sched \<mapsto> s\<lparr>current_phase := ph\<rparr>)\<rparr>)"
    by auto
  have ds: "deref (schedulers w) sched = Inr s" using assms by (simp add: deref_Some)
  have dr: "deref (registries w) (registry s) = Inr r" using rn r by (simp add: deref_Some)
  have "scheduler_run_cycle sched w =
           Inr (0, w\<lparr>schedulers := (schedulers w)(sched \<mapsto>
                       s\<lparr>current_phase := ph, cycle_count := cycle_count s + 1,
                         empty_cycles := empty_cycles s + 1\<rparr>)\<rparr>)"
    using assms(1) ds dr rn loop
    by (simp add: scheduler_run_cycle_def Let_def deref_def)
  thus ?thesis by blast
qed


lemma sint_succ:
  fixes x :: "32 word"
  assumes "sint x < 2147483647"
  shows "sint (x + 1) = sint x + 1"
proof -
  have lo: "- (2 ^ 31) \<le> sint x" using sint_ge[of x] by simp
  have "sint (x + 1) = signed_take_bit 31 (sint x + 1)"
    by (simp add: sint_word_ariths)
  also have "\<dots> = sint x + 1"
    by (rule signed_take_bit_int_eq_self) (use lo assms in simp_all)
  finally show ?thesis .
qed

lemma run_loop_quiet:
  "sched \<noteq> NULL \<Longrightarrow> schedulers w sched = Some s \<Longrightarrow> running s \<noteq> 0 \<Longrightarrow>
   quiescent w (registry s) \<Longrightarrow> sint (empty_cycles s) < 2147483647 \<Longrightarrow>
   k = nat (max 1 (sint (max_empty_cycles s) - sint (empty_cycles s))) \<Longrightarrow>
   \<exists>ph. scheduler_run_loop sched w =
           Some (Inr (w\<lparr>schedulers := (schedulers w)(sched \<mapsto>
                        s\<lparr>current_phase := ph, cycle_count := cycle_count s + of_nat k,
                          empty_cycles := empty_cycles s + of_nat k\<rparr>)\<rparr>))"
proof (induction "nat (sint (max_empty_cycles s) - sint (empty_cycles s) - 1)" arbitrary: w s k)
  case 0
  from run_cycle_quiet[OF "0.prems"(1,2,4)] obtain ph where
    cyc: "scheduler_run_cycle sched w =
           Inr (0, w\<lparr>schedulers := (schedulers w)(sched \<mapsto>
                       s\<lparr>current_phase := ph, cycle_count := cycle_count s + 1,
                         empty_cycles := empty_cycles s + 1\<rparr>)\<rparr>)" by blast
  have ds: "deref (schedulers w) sched = Inr s" using "0.prems" by (simp add: deref_Some)
  have e: "sint (empty_cycles s + 1) = sint (empty_cycles s) + 1"
    by (rule sint_succ[OF "0.prems"(5)])
  from "0.hyps" have le: "sint (max_empty_cycles s) \<le> sint (empty_cycles s) + 1" by simp
  hence k: "k = 1" using "0.prems"(6) by simp
  have "scheduler_run_loop sched w =
           Some (Inr (w\<lparr>schedulers := (schedulers w)(sched \<mapsto>
                        s\<lparr>current_phase := ph, cycle_count := cycle_count s + 1,
                          empty_cycles := empty_cycles s + 1\<rparr>)\<rparr>))"
    using ds "0.prems"(1,3) cyc e le
    by (subst scheduler_run_loop.simps) (simp add: deref_def)
  hence "scheduler_run_loop sched w =
           Some (Inr (w\<lparr>schedulers := (schedulers w)(sched \<mapsto>
                        s\<lparr>current_phase := ph, cycle_count := cycle_count s + of_nat k,
                          empty_cycles := empty_cycles s + of_nat k\<rparr>)\<rparr>))"
    using k by simp
  thus ?case by blast
next
  case (Suc n)
  from run_cycle_quiet[OF Suc.prems(1,2,4)] obtain ph where
    cyc: "scheduler_run_cycle sched w =
           Inr (0, w\<lparr>schedulers := (schedulers w)(sched \<mapsto>
                       s\<lparr>current_phase := ph, cycle_count := cycle_count s + 1,
                         empty_cycles := empty_cycles s + 1\<rparr>)\<rparr>)" by blast
  let ?s1 = "s\<lparr>current_phase := ph, cycle_count := cycle_count s + 1,
                empty_cycles := empty_cycles s + 1\<rparr>"
  let ?w1 = "w\<lparr>schedulers := (schedulers w)(sched \<mapsto> ?s1)\<rparr>"
  have ds: "deref (schedulers w) sched = Inr s" using Suc.prems by (simp add: deref_Some)
  have e: "sint (empty_cycles s + 1) = sint (empty_cycles s) + 1"
    by (rule sint_succ[OF Suc.prems(5)])
  from Suc.hyps(2) have gt: "sint (empty_cycles s) + 1 < sint (max_empty_cycles s)"
    and n: "n = nat (sint (max_empty_cycles ?s1) - sint (empty_cycles ?s1) - 1)"
    using e by simp_all
  have mx: "sint (max_empty_cycles s) \<le> 2147483647" using sint_lt[of "max_empty_cycles s"] by simp
  have q1: "quiescent ?w1 (registry ?s1)"
    using Suc.prems(4) quiescent_frame[of ?w1 w "registry s"] by simp
  define k1 where "k1 = nat (max 1 (sint (max_empty_cycles ?s1) - sint (empty_cycles ?s1)))"
  have k: "k = Suc k1"
    using Suc.prems(6) gt e by (simp add: k1_def)
  have "\<exists>ph'. scheduler_run_loop sched ?w1 =
           Some (Inr (?w1\<lparr>schedulers := (schedulers ?w1)(sched \<mapsto>
                        ?s1\<lparr>current_phase := ph',
                            cycle_count := cycle_count ?s1 + of_nat k1,
                            empty_cycles := empty_cycles ?s1 + of_nat k1\<rparr>)\<rparr>))"
    by (rule Suc.hyps(1)[OF n Suc.prems(1) _ _ _ _ k1_def])
       (use Suc.prems q1 gt e mx in simp_all)
  then obtain ph' where rec0: "scheduler_run_loop sched ?w1 =
           Some (Inr (?w1\<lparr>schedulers := (schedulers ?w1)(sched \<mapsto>
                        ?s1\<lparr>current_phase := ph',
                            cycle_count := cycle_count ?s1 + of_nat k1,
                            empty_cycles := empty_cycles ?s1 + of_nat k1\<rparr>)\<rparr>))"
    by blast
  have c1: "cycle_count s + 1 + of_nat k1 = cycle_count s + of_nat k"
    and c2: "empty_cycles s + 1 + of_nat k1 = empty_cycles s + of_nat k"
    unfolding k by simp_all
  have rec: "scheduler_run_loop sched ?w1 =
           Some (Inr (w\<lparr>schedulers := (schedulers w)(sched \<mapsto>
                        s\<lparr>current_phase := ph', cycle_count := cycle_count s + of_nat k,
                          empty_cycles := empty_cycles s + of_nat k\<rparr>)\<rparr>))"
    unfolding rec0 by (simp add: c1 c2)
  have "scheduler_run_loop sched w =
           Some (Inr (w\<lparr>schedulers := (schedulers w)(sched \<mapsto>
                        s\<lparr>current_phase := ph', cycle_count := cycle_count s + of_nat k,
                          empty_cycles := empty_cycles s + of_nat k\<rparr>)\<rparr>))"
    using ds Suc.prems(1,3) cyc e gt rec
    by (subst scheduler_run_loop.simps) (simp add: deref_def)
  thus ?case by blast
qed

lemma run_loop_exit_aux:
  "scheduler_run_loop sched w = Some r \<Longrightarrow>
   \<forall>w'. r = Inr w' \<longrightarrow>
     (\<exists>s'. schedulers w' sched = Some s' \<and>
        (running s' = 0 \<or> sint (max_empty_cycles s') \<le> sint (empty_cycles s')))"
  by (induction rule: scheduler_run_loop.raw_induct[rotated, consumes 1])
     (auto simp: deref_def split: sum.splits if_splits option.splits prod.splits)

lemma run_loop_exit:
  assumes "scheduler_run_loop sched w = Some (Inr w')"
  shows "\<exists>s'. schedulers w' sched = Some s' \<and>
        (running s' = 0 \<or> sint (max_empty_cycles s') \<le> sint (empty_cycles s'))"
  using run_loop_exit_aux[OF assms] by simp

lemma run_stopped:
  assumes "sched \<noteq> NULL" "schedulers w sched = Some s" "running s = 0"
  shows "scheduler_run sched w =
           Some (Inr (ucast (total_signals_processed s),
                      w\<lparr>rdtsc_reads := Suc (Suc (rdtsc_reads w)),
                        schedulers := (schedulers w)(sched \<mapsto>
                          s\<lparr>start_timestamp := rdtsc w (rdtsc_reads w),
                            end_timestamp := rdtsc w (Suc (rdtsc_reads w))\<rparr>)\<rparr>))"
  using assms
  by (simp add: scheduler_run_def deref_def get_timestamp_def Let_def
      scheduler_run_loop.simps[of sched "w\<lparr>rdtsc_reads := Suc (rdtsc_reads w),
          schedulers := (schedulers w)(sched \<mapsto> s\<lparr>start_timestamp := rdtsc w (rdtsc_reads w)\<rparr>)\<rparr>"])


lemma scheduler_create_fresh:
  assumes "scheduler_create reg rt w0 = (p, w1)" "p \<noteq> NULL"
  shows "\<exists>s0. schedulers w1 p = Some s0 \<and> registry s0 = reg \<and> running s0 = 1 \<and>
           empty_cycles s0 = 0 \<and> max_empty_cycles s0 = 10 \<and> cycle_count s0 = 0 \<and>
           total_signals_processed s0 = 0"
  using assms by (auto simp: scheduler_create_def Let_def split: if_splits prod.splits)

lemma run_quiet:
  assumes "sched \<noteq> NULL" "schedulers w sched = Some s" "running s \<noteq> 0"
    "quiescent w (registry s)" "sint (empty_cycles s) < 2147483647"
    "k = nat (max 1 (sint (max_empty_cycles s) - sint (empty_cycles s)))"
  shows "\<exists>ph. scheduler_run sched w =
           Some (Inr (ucast (total_signals_processed s),
                      w\<lparr>rdtsc_reads := Suc (Suc (rdtsc_reads w)),
                        schedulers := (schedulers w)(sched \<mapsto>
                          s\<lparr>start_timestamp := rdtsc w (rdtsc_reads w),
                            current_phase := ph,
                            cycle_count := cycle_count s + of_nat k,
                            empty_cycles := empty_cycles s + of_nat k,
                            end_timestamp := rdtsc w (Suc (rdtsc_reads w))\<rparr>)\<rparr>))"
proof -
  let ?s1 = "s\<lparr>start_timestamp := rdtsc w (rdtsc_reads w)\<rparr>"
  let ?w1 = "w\<lparr>rdtsc_reads := Suc (rdtsc_reads w),
                schedulers := (schedulers w)(sched \<mapsto> ?s1)\<rparr>"
  have q1: "quiescent ?w1 (registry ?s1)"
    using assms(4) quiescent_frame[of ?w1 w "registry s"] by simp
  have "\<exists>ph. scheduler_run_loop sched ?w1 =
           Some (Inr (?w1\<lparr>schedulers := (schedulers ?w1)(sched \<mapsto>
                        ?s1\<lparr>current_phase := ph, cycle_count := cycle_count ?s1 + of_nat k,
                          empty_cycles := empty_cycles ?s1 + of_nat k\<rparr>)\<rparr>))"
    by (rule run_loop_quiet[OF assms(1)]) (use assms q1 in simp_all)
  then obtain ph where loop: "scheduler_run_loop sched ?w1 =
           Some (Inr (?w1\<lparr>schedulers := (schedulers ?w1)(sched \<mapsto>
                        ?s1\<lparr>current_phase := ph, cycle_count := cycle_count ?s1 + of_nat k,
                          empty_cycles := empty_cycles ?s1 + of_nat k\<rparr>)\<rparr>))"
    by blast
  have "scheduler_run sched w =
           Some (Inr (ucast (total_signals_processed s),
                      w\<lparr>rdtsc_reads := Suc (Suc (rdtsc_reads w)),
                        schedulers := (schedulers w)(sched \<mapsto>
                          s\<lparr>start_timestamp := rdtsc w (rdtsc_reads w),
                            current_phase := ph,
                            cycle_count := cycle_count s + of_nat k,
                            empty_cycles := empty_cycles s + of_nat k,
                            end_timestamp := rdtsc w (Suc (rdtsc_reads w))\<rparr>)\<rparr>))"
    using assms(1,2) loop
    by (simp add: scheduler_run_def deref_def get_timestamp_def Let_def)
  thus ?thesis by blast
qed

lemma run_exit:
  assumes "scheduler_run sched w = Some (Inr (n, w'))" "sched \<noteq> NULL"
  shows "\<exists>s'. schedulers w' sched = Some s' \<and>
        (running s' = 0 \<or> sint (max_empty_cycles s') \<le> sint (empty_cycles s'))"
proof -
  from assms obtain s where s: "deref (schedulers w) sched = Inr s"
    by (auto simp: scheduler_run_def split: sum.splits)
  let ?w1 = "(snd (get_timestamp w))\<lparr>schedulers := (schedulers (snd (get_timestamp w)))(sched \<mapsto>
                s\<lparr>start_timestamp := fst (get_timestamp w)\<rparr>)\<rparr>"
  from assms s obtain w2 where loop: "scheduler_run_loop sched ?w1 = Some (Inr w2)"
    by (auto simp: scheduler_run_def Let_def split_beta split: sum.splits option.splits)
  from run_loop_exit[OF loop] obtain s2 where s2: "schedulers w2 sched = Some s2"
    and ex: "running s2 = 0 \<or> sint (max_empty_cycles s2) \<le> sint (empty_cycles s2)" by blast
  from assms s loop s2 have "schedulers w' sched = Some (s2\<lparr>end_timestamp := fst (get_timestamp w2)\<rparr>)"
    by (auto simp: scheduler_run_def Let_def split_beta deref_def get_timestamp_def split: if_splits)
  with ex show ?thesis by simp
qed

lemma shrinks_refl: "shrinks sched w w"
  by (simp add: shrinks_def)

lemma shrinks_trans:
  assumes "shrinks sched w w1" "shrinks sched w1 w2"
  shows "shrinks sched w w2"
  unfolding shrinks_def
proof (intro conjI allI impI)
  fix a ag assume "agents w2 a = Some ag"
  then show "agents w a = Some ag" using assms by (simp add: shrinks_def)
next
  fix a q' assume "queues w2 a = Some q'"
  then obtain q1 where "queues w1 a = Some q1" "unat (q_count q') \<le> unat (q_count q1)"
    using assms(2) unfolding shrinks_def by blast
  moreover then obtain q where "queues w a = Some q" "unat (q_count q1) \<le> unat (q_count q)"
    using assms(1) unfolding shrinks_def by blast
  ultimately show "\<exists>q. queues w a = Some q \<and> unat (q_count q') \<le> unat (q_count q)"
    by auto
next
  fix arr as2 assume "ptr_arrays w2 arr = Some as2"
  then obtain as1 where a1: "ptr_arrays w1 arr = Some as1" "length as2 = length as1"
    "\<forall>j<length as1. as2 ! j = as1 ! j \<or> as2 ! j = NULL"
    using assms(2) unfolding shrinks_def by blast
  then obtain as where a0: "ptr_arrays w arr = Some as" "length as1 = length as"
    "\<forall>j<length as. as1 ! j = as ! j \<or> as1 ! j = NULL"
    using assms(1) unfolding shrinks_def by blast
  have "\<forall>j<length as. as2 ! j = as ! j \<or> as2 ! j = NULL"
    using a1(3) a0(2,3) by metis
  with a0(1,2) a1(2)
  show "\<exists>as. ptr_arrays w arr = Some as \<and> length as2 = length as \<and>
                (\<forall>j<length as. as2 ! j = as ! j \<or> as2 ! j = NULL)" by auto
next
  fix a r assume "registries w2 a = Some r"
  then show "registries w a = Some r" using assms by (simp add: shrinks_def)
next
  fix s2 assume "schedulers w2 sched = Some s2"
  then obtain s1 where s1: "schedulers w1 sched = Some s1" "registry s2 = registry s1"
    "running s2 = running s1" "empty_cycles s2 = empty_cycles s1"
    "max_empty_cycles s2 = max_empty_cycles s1" "cycle_count s2 = cycle_count s1"
    using assms(2) unfolding shrinks_def by blast
  then obtain s where "schedulers w sched = Some s" "registry s1 = registry s"
    "running s1 = running s" "empty_cycles s1 = empty_cycles s"
    "max_empty_cycles s1 = max_empty_cycles s" "cycle_count s1 = cycle_count s"
    using assms(1) unfolding shrinks_def by blast
  with s1 show "\<exists>s. schedulers w sched = Some s \<and> registry s2 = registry s \<and>
               running s2 = running s \<and> empty_cycles s2 = empty_cycles s \<and>
               max_empty_cycles s2 = max_empty_cycles s \<and> cycle_count s2 = cycle_count s"
    by simp
qed

lemma shrinks_pending_at:
  assumes "shrinks sched w w'"
  shows "pending_at w' arr j \<le> pending_at w arr j"
proof (cases "ptr_arrays w' arr")
  case None
  then show ?thesis by (simp add: pending_at_def)
next
  case (Some as')
  then obtain as where as: "ptr_arrays w arr = Some as" "length as' = length as"
    "\<forall>j<length as. as' ! j = as ! j \<or> as' ! j = NULL"
    using assms unfolding shrinks_def by blast
  show ?thesis
  proof (cases "j < length as' \<and> as' ! j \<noteq> NULL")
    case False
    then show ?thesis using Some by (auto simp: pending_at_def)
  next
    case True
    then have eq: "as' ! j = as ! j" and jl: "j < length as" and nn: "as ! j \<noteq> NULL"
      using as(2,3) by auto
    show ?thesis
    proof (cases "agents w' (as ! j)")
      case None
      then show ?thesis using Some True eq by (simp add: pending_at_def)
    next
      case (Some ag)
      then have ag: "agents w (as ! j) = Some ag" using assms unfolding shrinks_def by blast
      show ?thesis
      proof (cases "input_queue ag = NULL")
        case True
        then show ?thesis using \<open>ptr_arrays w' arr = Some as'\<close> \<open>j < length as' \<and> as' ! j \<noteq> NULL\<close>
            eq Some by (simp add: pending_at_def)
      next
        case qn: False
        show ?thesis
        proof (cases "queues w' (input_queue ag)")
          case None
          then show ?thesis using \<open>ptr_arrays w' arr = Some as'\<close>
              \<open>j < length as' \<and> as' ! j \<noteq> NULL\<close> eq Some qn by (simp add: pending_at_def)
        next
          case (Some q')
          then obtain q where "queues w (input_queue ag) = Some q"
            "unat (q_count q') \<le> unat (q_count q)"
            using assms unfolding shrinks_def by blast
          then show ?thesis
            using \<open>ptr_arrays w' arr = Some as'\<close> \<open>j < length as' \<and> as' ! j \<noteq> NULL\<close>
              eq \<open>agents w' (as ! j) = Some ag\<close> ag qn Some as(1) jl nn
            by (simp add: pending_at_def)
        qed
      qed
    qed
  qed
qed

lemma shrinks_pending:
  assumes "shrinks sched w w'"
  shows "pending w' r \<le> pending w r"
  unfolding pending_def by (rule sum_mono) (rule shrinks_pending_at[OF assms])

lemma pending_strict:
  assumes "shrinks sched w w'" "i < unat (reg_count r)"
    "pending_at w' (reg_agents r) i < pending_at w (reg_agents r) i"
  shows "pending w' r < pending w r"
  unfolding pending_def
proof (rule sum_strict_mono_ex1)
  show "finite {..<unat (reg_count r)}" by simp
  show "\<forall>x\<in>{..<unat (reg_count r)}. pending_at w' (reg_agents r) x \<le> pending_at w (reg_agents r) x"
    using shrinks_pending_at[OF assms(1)] by simp
  show "\<exists>a\<in>{..<unat (reg_count r)}. pending_at w' (reg_agents r) a < pending_at w (reg_agents r) a"
    using assms(2,3) by auto
qed

lemma shrinks_sched_upd:
  assumes "schedulers w sched = Some s" "registry s' = registry s" "running s' = running s"
    "empty_cycles s' = empty_cycles s" "max_empty_cycles s' = max_empty_cycles s"
    "cycle_count s' = cycle_count s"
  shows "shrinks sched w (w\<lparr>schedulers := (schedulers w)(sched \<mapsto> s')\<rparr>)"
  using assms by (simp add: shrinks_def)

lemma shrinks_release: "shrinks sched w (release p w)"
  by (simp add: shrinks_def release_def)

lemma shrinks_heap_free: "shrinks sched w (snd (heap_free p n w))"
proof (cases "p = NULL \<or> n = 0")
  case True
  then show ?thesis by (auto simp: heap_free_def shrinks_refl)
next
  case False
  have "shrinks sched (release p w) (snd (heap_free p n w))"
    using False by (simp add: heap_free_def Let_def shrinks_def)
  with shrinks_release[of sched w p] show ?thesis by (rule shrinks_trans)
qed

lemma shrinks_signals_upd: "shrinks sched w (w\<lparr>signals := x\<rparr>)"
  by (simp add: shrinks_def)


lemma shrinks_free_payload:
  assumes "signal_free_payload sg v = Inr v'"
  shows "shrinks sched v v'"
proof (cases "deref (signals v) sg")
  case (Inl f)
  with assms show ?thesis by (simp add: signal_free_payload_def)
next
  case (Inr s)
  show ?thesis
  proof (cases "sig_flags s AND SIGNAL_FLAG_OWNS_PAYLOAD \<noteq> 0 \<and> payload_ptr s \<noteq> NULL")
    case False
    with assms Inr have "v' = v" by (auto simp: signal_free_payload_def)
    then show ?thesis by (simp add: shrinks_refl)
  next
    case True
    define v1 where "v1 = snd (heap_free (payload_ptr s) (ucast (payload_capacity s)) v)"
    from assms Inr True obtain s1 where
      "v' = v1\<lparr>signals := (signals v1)(sg \<mapsto> s1\<lparr>payload_ptr := NULL\<rparr>)\<rparr>"
      by (auto simp: signal_free_payload_def Let_def v1_def split: sum.splits)
    then have "shrinks sched v1 v'" by (simp add: shrinks_signals_upd)
    moreover have "shrinks sched v v1" unfolding v1_def by (rule shrinks_heap_free)
    ultimately show ?thesis by (metis shrinks_trans)
  qed
qed

lemma shrinks_free_header:
  assumes "signal_free_header sg v = Inr v'"
  shows "shrinks sched v v'"
proof (cases "deref (signals v) sg")
  case (Inl f)
  with assms show ?thesis by (simp add: signal_free_header_def)
next
  case (Inr s)
  with assms have "v' = snd (heap_free sg sizeof_Signal v) \<or> v' = v"
    by (auto simp: signal_free_header_def split: if_splits)
  then show ?thesis using shrinks_heap_free shrinks_refl by metis
qed

lemma shrinks_signal_free:
  assumes "signal_free sg w = Inr w'"
  shows "shrinks sched w w'"
proof (cases "sg = NULL")
  case True
  with assms show ?thesis by (simp add: signal_free_def shrinks_refl)
next
  case False
  show ?thesis
  proof (cases "deref (signals w) sg")
    case (Inl f)
    with assms False show ?thesis by (simp add: signal_free_def)
  next
    case (Inr s0)
    define s1 where "s1 = (if ref_count s0 > 0 then s0\<lparr>ref_count := ref_count s0 - 1\<rparr> else s0)"
    define w1 where "w1 = w\<lparr>signals := (signals w)(sg \<mapsto> s1)\<rparr>"
    have a: "shrinks sched w w1" unfolding w1_def by (rule shrinks_signals_upd)
    have eq: "signal_free sg w =
                (if ref_count s1 > 0 then Inr w1
                 else case signal_free_payload sg w1 of
                        Inl f \<Rightarrow> Inl f
                      | Inr w2 \<Rightarrow> signal_free_header sg w2)"
      using False Inr by (simp add: signal_free_def Let_def s1_def w1_def)
    show ?thesis
    proof (cases "ref_count s1 > 0")
      case True
      with eq assms have "w' = w1" by simp
      with a show ?thesis by simp
    next
      case nz: False
      with eq assms obtain w2 where p: "signal_free_payload sg w1 = Inr w2"
        and h: "signal_free_header sg w2 = Inr w'"
        by (auto split: sum.splits)
      from a shrinks_free_payload[OF p] shrinks_free_header[OF h] show ?thesis
        by (metis shrinks_trans)
    qed
  qed
qed

lemma unat_pred_less:
  fixes c :: "32 word"
  assumes "c \<noteq> 0"
  shows "unat (c - 1) < unat c"
  using assms by (metis diff_less unat_gt_0 unat_minus_one zero_less_one)

lemma dequeue_cases:
  assumes "signal_queue_dequeue queue w = Inr (sg, w')"
  shows "(sg = NULL \<and> w' = w) \<or>
         (\<exists>q xs idx. queue \<noteq> NULL \<and> queues w queue = Some q \<and> q_count q \<noteq> 0 \<and>
            ptr_arrays w (buffer q) = Some xs \<and> idx < length xs \<and>
            w' = w\<lparr>ptr_arrays := (ptr_arrays w)(buffer q \<mapsto> xs[idx := NULL]),
                   queues := (queues w)(queue \<mapsto>
                      q\<lparr>head := head q + 1, q_count := q_count q - 1,
                        total_dequeued := total_dequeued q + 1\<rparr>)\<rparr>)"
  using assms
  by (auto simp: signal_queue_dequeue_def deref_def array_get_def array_set_def Let_def
      split: if_splits sum.splits option.splits)

lemma shrinks_dequeue:
  assumes "signal_queue_dequeue queue w = Inr (sg, w')"
  shows "shrinks sched w w'"
proof -
  from dequeue_cases[OF assms] show ?thesis
  proof
    assume "sg = NULL \<and> w' = w"
    then show ?thesis by (simp add: shrinks_refl)
  next
    assume "\<exists>q xs idx. queue \<noteq> NULL \<and> queues w queue = Some q \<and> q_count q \<noteq> 0 \<and>
            ptr_arrays w (buffer q) = Some xs \<and> idx < length xs \<and>
            w' = w\<lparr>ptr_arrays := (ptr_arrays w)(buffer q \<mapsto> xs[idx := NULL]),
                   queues := (queues w)(queue \<mapsto>
                      q\<lparr>head := head q + 1, q_count := q_count q - 1,
                        total_dequeued := total_dequeued q + 1\<rparr>)\<rparr>"
    then obtain q xs idx where q: "queues w queue = Some q" "q_count q \<noteq> 0"
      and xs: "ptr_arrays w (buffer q) = Some xs" "idx < length xs"
      and w': "w' = w\<lparr>ptr_arrays := (ptr_arrays w)(buffer q \<mapsto> xs[idx := NULL]),
                   queues := (queues w)(queue \<mapsto>
                      q\<lparr>head := head q + 1, q_count := q_count q - 1,
                        total_dequeued := total_dequeued q + 1\<rparr>)\<rparr>" by blast
    have le: "unat (q_count q - 1) \<le> unat (q_count q)"
      using unat_pred_less[OF q(2)] by simp
    show ?thesis
      unfolding shrinks_def
    proof (intro conjI allI impI)
      fix a ag assume "agents w' a = Some ag"
      then show "agents w a = Some ag" by (simp add: w')
    next
      fix a q' assume "queues w' a = Some q'"
      then show "\<exists>q. queues w a = Some q \<and> unat (q_count q') \<le> unat (q_count q)"
        using q(1) le by (auto simp: w' split: if_splits)
    next
      fix arr as' assume "ptr_arrays w' arr = Some as'"
      then show "\<exists>as. ptr_arrays w arr = Some as \<and> length as' = length as \<and>
                (\<forall>j<length as. as' ! j = as ! j \<or> as' ! j = NULL)"
        using xs by (auto simp: w' nth_list_update split: if_splits)
    next
      fix a r assume "registries w' a = Some r"
      then show "registries w a = Some r" by (simp add: w')
    next
      fix s' assume "schedulers w' sched = Some s'"
      then show "\<exists>s. schedulers w sched = Some s \<and> registry s' = registry s \<and>
               running s' = running s \<and> empty_cycles s' = empty_cycles s \<and>
               max_empty_cycles s' = max_empty_cycles s \<and> cycle_count s' = cycle_count s"
        by (simp add: w')
    qed
  qed
qed

lemma dequeue_strict:
  assumes dq: "signal_queue_dequeue queue w = Inr (sg, w')" and sg: "sg \<noteq> NULL"
    and arr: "ptr_arrays w arr = Some as" "i < length as" "as ! i \<noteq> NULL"
    and ag: "agents w (as ! i) = Some ag" "input_queue ag = queue"
  shows "pending_at w' arr i < pending_at w arr i"
proof -
  from dequeue_cases[OF dq] sg obtain q xs idx where qn: "queue \<noteq> NULL"
    and q: "queues w queue = Some q" "q_count q \<noteq> 0"
    and xs: "ptr_arrays w (buffer q) = Some xs" "idx < length xs"
    and w': "w' = w\<lparr>ptr_arrays := (ptr_arrays w)(buffer q \<mapsto> xs[idx := NULL]),
                   queues := (queues w)(queue \<mapsto>
                      q\<lparr>head := head q + 1, q_count := q_count q - 1,
                        total_dequeued := total_dequeued q + 1\<rparr>)\<rparr>" by blast
  have before: "pending_at w arr i = unat (q_count q)"
    using arr ag qn q(1) by (simp add: pending_at_def)
  have pos: "0 < unat (q_count q)" using q(2) by (simp add: unat_gt_0)
  have "\<exists>as'. ptr_arrays w' arr = Some as' \<and> length as' = length as \<and>
          (as' ! i = as ! i \<or> as' ! i = NULL)"
  proof (cases "arr = buffer q")
    case True
    with arr(1) xs(1) have "xs = as" by simp
    then show ?thesis using True arr(2) by (cases "i = idx") (simp_all add: w')
  next
    case False
    then show ?thesis using arr(1) by (simp add: w')
  qed
  then obtain as' where as': "ptr_arrays w' arr = Some as'" "length as' = length as"
    "as' ! i = as ! i \<or> as' ! i = NULL" by blast
  show ?thesis
  proof (cases "as' ! i = NULL")
    case True
    then have "pending_at w' arr i = 0" using as' by (simp add: pending_at_def)
    with before pos show ?thesis by simp
  next
    case False
    with as'(3) have e: "as' ! i = as ! i" by simp
    have "agents w' (as ! i) = Some ag" using ag(1) by (simp add: w')
    moreover have "queues w' queue = Some (q\<lparr>head := head q + 1, q_count := q_count q - 1,
                        total_dequeued := total_dequeued q + 1\<rparr>)" by (simp add: w')
    ultimately have "pending_at w' arr i = unat (q_count q - 1)"
      using as' e arr(2,3) ag(2) qn by (simp add: pending_at_def)
    with before unat_pred_less[OF q(2)] show ?thesis by simp
  qed
qed

lemma pending_at_sched_upd:
  "pending_at (w\<lparr>schedulers := x\<rparr>) arr j = pending_at w arr j"
  by (simp add: pending_at_def cong: option.case_cong if_cong)


lemma deref_InrD: "deref m p = Inr v \<Longrightarrow> p \<noteq> NULL \<and> m p = Some v"
  by (auto simp: deref_def split: if_splits option.splits)

lemma array_get_InrD:
  "array_get m p i = Inr v \<Longrightarrow> \<exists>xs. p \<noteq> NULL \<and> m p = Some xs \<and> i < length xs \<and> v = xs ! i"
  by (auto simp: array_get_def deref_def split: if_splits option.splits)

lemma cycle_loop_shrinks:
  "cycle_loop sched r i sp w = Inr (sp', w') \<Longrightarrow>
   shrinks sched w w' \<and> (sp' \<noteq> sp \<longrightarrow> pending w' r < pending w r)"
proof (induction "unat (reg_count r) - i" arbitrary: i sp w)
  case 0
  then have "\<not> i < unat (reg_count r)" by simp
  then have "cycle_loop sched r i sp w = Inr (sp, w)" by (subst cycle_loop.simps) simp
  with "0.prems" show ?case by (simp add: shrinks_refl)
next
  case (Suc n)
  then have lt: "i < unat (reg_count r)" and n: "n = unat (reg_count r) - Suc i" by simp_all
  let ?arr = "reg_agents r"
  note eq = Suc.prems[unfolded cycle_loop.simps[of sched r i sp w]]
  from eq lt obtain agent where ga: "array_get (ptr_arrays w) ?arr i = Inr agent"
    by (cases "array_get (ptr_arrays w) ?arr i") auto
  show ?case
  proof (cases "agent = NULL")
    case True
    with eq lt ga have "cycle_loop sched r (Suc i) sp w = Inr (sp', w')" by simp
    from Suc.hyps(1)[OF n this] show ?thesis .
  next
    case an: False
    from eq lt ga an obtain ag where da: "deref (agents w) agent = Inr ag"
      by (cases "deref (agents w) agent") auto
    show ?thesis
    proof (cases "input_queue ag = NULL")
      case True
      with eq lt ga an da have "cycle_loop sched r (Suc i) sp w = Inr (sp', w')" by simp
      from Suc.hyps(1)[OF n this] show ?thesis .
    next
      case qn: False
      from eq lt ga an da qn obtain s where ds: "deref (schedulers w) sched = Inr s"
        by (cases "deref (schedulers w) sched") auto
      define w1 where "w1 = w\<lparr>schedulers := (schedulers w)(sched \<mapsto> s\<lparr>current_phase := PHASE_SENSE\<rparr>)\<rparr>"
      from eq lt ga an da qn ds obtain sg w2 where
        dq: "signal_queue_dequeue (input_queue ag) w1 = Inr (sg, w2)"
        by (cases "signal_queue_dequeue (input_queue ag) w1") (auto simp: Let_def w1_def)
      have s01: "shrinks sched w w1"
        unfolding w1_def by (rule shrinks_sched_upd) (use deref_InrD[OF ds] in simp_all)
      have s12: "shrinks sched w1 w2" by (rule shrinks_dequeue[OF dq])
      have s02: "shrinks sched w w2" by (rule shrinks_trans[OF s01 s12])
      show ?thesis
      proof (cases "sg = NULL")
        case True
        with eq lt ga an da qn ds dq have "cycle_loop sched r (Suc i) sp w2 = Inr (sp', w')"
          by (simp add: Let_def w1_def)
        from Suc.hyps(1)[OF n this]
        have a: "shrinks sched w2 w'" and b: "sp' \<noteq> sp \<longrightarrow> pending w' r < pending w2 r"
          by simp_all
        have "shrinks sched w w'" by (rule shrinks_trans[OF s02 a])
        moreover have "pending w2 r \<le> pending w r" by (rule shrinks_pending[OF s02])
        ultimately show ?thesis using b by auto
      next
        case sn: False
        from eq lt ga an da qn ds dq sn obtain s2 where
          ds2: "deref (schedulers w2) sched = Inr s2"
          by (cases "deref (schedulers w2) sched") (auto simp: Let_def w1_def)
        define w3 where "w3 = w2\<lparr>schedulers := (schedulers w2)(sched \<mapsto> s2\<lparr>current_phase := PHASE_ACT\<rparr>)\<rparr>"
        from eq lt ga an da qn ds dq sn ds2 obtain w4 where
          sf: "signal_free sg w3 = Inr w4"
          by (cases "signal_free sg w3") (auto simp: Let_def w1_def w3_def)
        from eq lt ga an da qn ds dq sn ds2 sf obtain s4 where
          ds4: "deref (schedulers w4) sched = Inr s4"
          by (cases "deref (schedulers w4) sched") (auto simp: Let_def w1_def w3_def)
        define w5 where "w5 = w4\<lparr>schedulers := (schedulers w4)(sched \<mapsto>
                                  s4\<lparr>total_signals_processed := total_signals_processed s4 + 1\<rparr>)\<rparr>"
        from eq lt ga an da qn ds dq sn ds2 sf ds4
        have rec: "cycle_loop sched r (Suc i) (sp + 1) w5 = Inr (sp', w')"
          by (simp add: Let_def w1_def w3_def w5_def)
        from Suc.hyps(1)[OF n rec] have s5: "shrinks sched w5 w'" by simp
        have s23: "shrinks sched w2 w3"
          unfolding w3_def by (rule shrinks_sched_upd) (use deref_InrD[OF ds2] in simp_all)
        have s34: "shrinks sched w3 w4" by (rule shrinks_signal_free[OF sf])
        have s45: "shrinks sched w4 w5"
          unfolding w5_def by (rule shrinks_sched_upd) (use deref_InrD[OF ds4] in simp_all)
        have s2e: "shrinks sched w2 w'"
          using s23 s34 s45 s5 by (metis shrinks_trans)
        have all: "shrinks sched w w'" by (rule shrinks_trans[OF s02 s2e])
        from array_get_InrD[OF ga] obtain as where as: "ptr_arrays w ?arr = Some as"
          "i < length as" "agent = as ! i" by blast
        have "pending_at w2 ?arr i < pending_at w1 ?arr i"
        proof (rule dequeue_strict[OF dq sn])
          show "ptr_arrays w1 ?arr = Some as" using as(1) by (simp add: w1_def)
          show "i < length as" by (rule as(2))
          show "as ! i \<noteq> NULL" using an as(3) by simp
          show "agents w1 (as ! i) = Some ag" using deref_InrD[OF da] as(3) by (simp add: w1_def)
          show "input_queue ag = input_queue ag" by simp
        qed
        moreover have "pending_at w1 ?arr i = pending_at w ?arr i"
          unfolding w1_def by (rule pending_at_sched_upd)
        moreover have "pending_at w' ?arr i \<le> pending_at w2 ?arr i"
          by (rule shrinks_pending_at[OF s2e])
        ultimately have "pending_at w' ?arr i < pending_at w ?arr i" by simp
        from pending_strict[OF all lt this] all show ?thesis by simp
      qed
    qed
  qed
qed


lemma pending_sched_upd: "pending (w\<lparr>schedulers := x\<rparr>) r = pending w r"
  by (simp add: pending_def pending_at_sched_upd)

lemma run_cycle_step:
  assumes c: "scheduler_run_cycle sched w = Inr (p, w1)" and sn: "sched \<noteq> NULL"
    and s: "schedulers w sched = Some s" and rn: "registry s \<noteq> NULL"
  shows "\<exists>r s1. registries w (registry s) = Some r \<and> schedulers w1 sched = Some s1 \<and>
           registry s1 = registry s \<and> running s1 = running s \<and>
           max_empty_cycles s1 = max_empty_cycles s \<and>
           cycle_count s1 = cycle_count s + 1 \<and>
           (\<forall>a r'. registries w1 a = Some r' \<longrightarrow> registries w a = Some r') \<and>
           pending w1 r \<le> pending w r \<and> (p \<noteq> 0 \<longrightarrow> pending w1 r < pending w r) \<and>
           (p = 0 \<longrightarrow> empty_cycles s1 = empty_cycles s + 1)"
proof -
  have ds: "deref (schedulers w) sched = Inr s" using sn s by (simp add: deref_Some)
  define w0 where "w0 = w\<lparr>schedulers := (schedulers w)(sched \<mapsto> s\<lparr>current_phase := PHASE_REST\<rparr>)\<rparr>"
  note eq = c[unfolded scheduler_run_cycle_def]
  from eq sn ds rn obtain r where dr: "deref (registries w0) (registry s) = Inr r"
    by (cases "deref (registries w0) (registry s)") (auto simp: Let_def w0_def)
  from eq sn ds rn dr obtain p2 w2 where cl: "cycle_loop sched r 0 0 w0 = Inr (p2, w2)"
    by (cases "cycle_loop sched r 0 0 w0") (auto simp: Let_def w0_def simp del: cycle_loop.simps)
  from eq sn ds rn dr cl obtain s2 where ds2: "deref (schedulers w2) sched = Inr s2"
    by (cases "deref (schedulers w2) sched") (auto simp: Let_def w0_def simp del: cycle_loop.simps)
  define s3 where "s3 = s2\<lparr>cycle_count := cycle_count s2 + 1\<rparr>"
  define s4 where "s4 = (if 0 < sint p2
                         then s3\<lparr>agents_active := agents_active s3 + scast p2, empty_cycles := 0\<rparr>
                         else s3\<lparr>empty_cycles := empty_cycles s3 + 1\<rparr>)"
  from eq sn ds rn dr cl ds2 have res: "p = p2" "w1 = w2\<lparr>schedulers := (schedulers w2)(sched \<mapsto> s4)\<rparr>"
    by (auto simp add: Let_def w0_def s3_def s4_def simp del: cycle_loop.simps)
  from cycle_loop_shrinks[OF cl] have sh: "shrinks sched w0 w2"
    and st: "p2 \<noteq> 0 \<longrightarrow> pending w2 r < pending w0 r" by simp_all
  have p0: "pending w0 r = pending w r" unfolding w0_def by (rule pending_sched_upd)
  have p1: "pending w1 r = pending w2 r" unfolding res(2) by (rule pending_sched_upd)
  from sh deref_InrD[OF ds2] have f: "registry s2 = registry s" "running s2 = running s"
    "empty_cycles s2 = empty_cycles s" "max_empty_cycles s2 = max_empty_cycles s"
    "cycle_count s2 = cycle_count s"
    unfolding shrinks_def by (auto simp: w0_def)
  from sh have rg: "\<forall>a r'. registries w2 a = Some r' \<longrightarrow> registries w0 a = Some r'"
    unfolding shrinks_def by blast
  have "registries w (registry s) = Some r" using deref_InrD[OF dr] by (simp add: w0_def)
  moreover have "schedulers w1 sched = Some s4" by (simp add: res(2))
  moreover have "registry s4 = registry s" "running s4 = running s"
    "max_empty_cycles s4 = max_empty_cycles s" "cycle_count s4 = cycle_count s + 1"
    using f by (simp_all add: s4_def s3_def)
  moreover have "\<forall>a r'. registries w1 a = Some r' \<longrightarrow> registries w a = Some r'"
    using rg by (simp add: res(2) w0_def)
  moreover have "pending w1 r \<le> pending w r"
    using shrinks_pending[OF sh, of r] p0 p1 by simp
  moreover have "p \<noteq> 0 \<longrightarrow> pending w1 r < pending w r" using st p0 p1 res(1) by simp
  moreover have "p = 0 \<longrightarrow> empty_cycles s4 = empty_cycles s + 1"
    using f res(1) by (simp add: s4_def s3_def)
  ultimately show ?thesis by blast
qed

lemma run_loop_terminates_aux:
  fixes w :: "'u world"
  shows "\<forall>s. sched \<noteq> NULL \<and> schedulers w sched = Some s \<and> registry s \<noteq> NULL \<longrightarrow>
       (\<exists>res. scheduler_run_loop sched w = Some res)"
proof -
  have "wf (inv_image (less_than <*lex*> less_than) (run_measure sched))"
    by (intro wf_inv_image wf_lex_prod wf_less_than)
  then show ?thesis
  proof (induction w rule: wf_induct_rule)
  case (less w)
  show ?case
  proof (intro allI impI, elim conjE)
    fix s assume sn: "sched \<noteq> NULL" and s: "schedulers w sched = Some s" and rn: "registry s \<noteq> NULL"
    have ds: "deref (schedulers w) sched = Inr s" using sn s by (simp add: deref_Some)
    show "\<exists>res. scheduler_run_loop sched w = Some res"
    proof (cases "running s = 0")
      case True
      then show ?thesis using ds by (subst scheduler_run_loop.simps) simp
    next
      case run: False
      show ?thesis
      proof (cases "scheduler_run_cycle sched w")
        case (Inl f)
        then show ?thesis using ds run by (subst scheduler_run_loop.simps) simp
      next
        case (Inr pw)
        obtain p w1 where pw: "pw = (p, w1)" by (cases pw)
        note c = Inr[unfolded pw]
        from run_cycle_step[OF c sn s rn] obtain r s1 where
          r: "registries w (registry s) = Some r" and s1: "schedulers w1 sched = Some s1"
          and f: "registry s1 = registry s" "max_empty_cycles s1 = max_empty_cycles s"
          and rg: "\<forall>a r'. registries w1 a = Some r' \<longrightarrow> registries w a = Some r'"
          and le: "pending w1 r \<le> pending w r"
          and lt: "p \<noteq> 0 \<longrightarrow> pending w1 r < pending w r"
          and em: "p = 0 \<longrightarrow> empty_cycles s1 = empty_cycles s + 1" by blast
        have ds1: "deref (schedulers w1) sched = Inr s1" using sn s1 by (simp add: deref_Some)
        have m0: "run_measure sched w =
                    (pending w r, nat (sint (max_empty_cycles s) - sint (empty_cycles s + 1)))"
          using s r by (simp add: run_measure_def)
        have first: "\<And>v :: 'u world. registries v = registries w1 \<Longrightarrow> pending v r = pending w1 r \<Longrightarrow>
                      (case registries v (registry s) of None \<Rightarrow> 0 | Some r' \<Rightarrow> pending v r')
                        \<le> pending w1 r"
        proof -
          fix v :: "'u world" assume a: "registries v = registries w1" "pending v r = pending w1 r"
          show "(case registries v (registry s) of None \<Rightarrow> 0 | Some r' \<Rightarrow> pending v r')
                        \<le> pending w1 r"
          proof (cases "registries v (registry s)")
            case None
            then show ?thesis by simp
          next
            case (Some r')
            with rg a(1) r have "r' = r" by auto
            with Some a(2) show ?thesis by simp
          qed
        qed
        show ?thesis
        proof (cases "sint p < 0")
          case True
          then have pn: "p \<noteq> 0" by auto
          define v where "v = w1\<lparr>schedulers := (schedulers w1)(sched \<mapsto>
                                 s1\<lparr>dispatch_errors := dispatch_errors s1 + 1\<rparr>)\<rparr>"
          have "(case registries v (registry s) of None \<Rightarrow> 0 | Some r' \<Rightarrow> pending v r')
                  \<le> pending w1 r"
            by (rule first) (simp_all add: v_def pending_sched_upd)
          moreover have "fst (run_measure sched v) =
                  (case registries v (registry s) of None \<Rightarrow> 0 | Some r' \<Rightarrow> pending v r')"
          proof -
            have "schedulers v sched = Some (s1\<lparr>dispatch_errors := dispatch_errors s1 + 1\<rparr>)"
              by (simp add: v_def)
            then show ?thesis using f(1) by (simp add: run_measure_def)
          qed
          ultimately have "fst (run_measure sched v) < pending w r"
            using lt pn by simp
          then have "(v, w) \<in> inv_image (less_than <*lex*> less_than) (run_measure sched)"
            using m0 by (cases "run_measure sched v") simp
          from less.IH[OF this] obtain res where "scheduler_run_loop sched v = Some res"
            using sn rn f by (auto simp: v_def)
          then show ?thesis
            using ds run c ds1 True
            by (subst scheduler_run_loop.simps) (simp add: v_def)
        next
          case nn: False
          show ?thesis
          proof (cases "sint (max_empty_cycles s1) \<le> sint (empty_cycles s1)")
            case True
            then show ?thesis
              using ds run c ds1 nn by (subst scheduler_run_loop.simps) simp
          next
            case cont: False
            have fle: "(case registries w1 (registry s) of None \<Rightarrow> 0 | Some r' \<Rightarrow> pending w1 r')
                  \<le> pending w1 r"
              by (rule first) simp_all
            have "(w1, w) \<in> inv_image (less_than <*lex*> less_than) (run_measure sched)"
            proof (cases "p = 0")
              case False
              moreover have "fst (run_measure sched w1) =
                  (case registries w1 (registry s) of None \<Rightarrow> 0 | Some r' \<Rightarrow> pending w1 r')"
                using s1 f(1) by (simp add: run_measure_def)
              ultimately have "fst (run_measure sched w1) < pending w r"
                using lt fle by simp
              then show ?thesis using m0 by (cases "run_measure sched w1") simp
            next
              case True
              with em have e1: "empty_cycles s1 = empty_cycles s + 1" by simp
              from cont have c1: "sint (empty_cycles s + 1) < sint (max_empty_cycles s)"
                using e1 f(2) by simp
              have "sint (max_empty_cycles s) \<le> 2147483647"
                using sint_lt[of "max_empty_cycles s"] by simp
              with c1 have "sint (empty_cycles s + 1) < 2147483647" by simp
              from sint_succ[OF this]
              have "sint (empty_cycles s + 1 + 1) = sint (empty_cycles s + 1) + 1" .
              then have snd: "snd (run_measure sched w1) <
                           nat (sint (max_empty_cycles s) - sint (empty_cycles s + 1))"
                using c1 e1 f(2) s1 by (simp add: run_measure_def)
              have "fst (run_measure sched w1) =
                  (case registries w1 (registry s) of None \<Rightarrow> 0 | Some r' \<Rightarrow> pending w1 r')"
                using s1 f(1) by (simp add: run_measure_def)
              then have "fst (run_measure sched w1) \<le> pending w r"
                using fle le by simp
              with snd show ?thesis using m0 by (cases "run_measure sched w1") auto
            qed
            from less.IH[OF this] obtain res where "scheduler_run_loop sched w1 = Some res"
              using sn rn f s1 by auto
            then show ?thesis
              using ds run c ds1 nn cont
              by (subst scheduler_run_loop.simps) simp
          qed
        qed
      qed
    qed
  qed
  qed
qed

lemma run_terminates:
  assumes "sched \<noteq> NULL" "schedulers w sched = Some s" "registry s \<noteq> NULL"
  shows "\<exists>res. scheduler_run sched w = Some res"
proof -
  let ?w1 = "w\<lparr>rdtsc_reads := Suc (rdtsc_reads w),
                schedulers := (schedulers w)(sched \<mapsto> s\<lparr>start_timestamp := rdtsc w (rdtsc_reads w)\<rparr>)\<rparr>"
  from run_loop_terminates_aux[of sched ?w1] assms obtain res where
    l: "scheduler_run_loop sched ?w1 = Some res" by auto
  have ds: "deref (schedulers w) sched = Inr s" using assms by (simp add: deref_Some)
  show ?thesis
    using assms(1) ds l
    by (cases res)
       (auto simp: scheduler_run_def get_timestamp_def Let_def split_beta split: sum.splits)
qed

lemma run_loop_rules:
  assumes "sched \<noteq> NULL" "schedulers w sched = Some s"
  shows "running s = 0 \<Longrightarrow> scheduler_run_loop sched w = Some (Inr w)"
    and "running s \<noteq> 0 \<Longrightarrow> scheduler_run_cycle sched w = Inr (p, w1) \<Longrightarrow>
         schedulers w1 sched = Some s1 \<Longrightarrow> 0 \<le> sint p \<Longrightarrow>
         scheduler_run_loop sched w =
           (if sint (max_empty_cycles s1) \<le> sint (empty_cycles s1) then Some (Inr w1)
            else scheduler_run_loop sched w1)"
proof -
  have ds: "deref (schedulers w) sched = Inr s" using assms by (simp add: deref_Some)
  show "running s = 0 \<Longrightarrow> scheduler_run_loop sched w = Some (Inr w)"
    using ds by (subst scheduler_run_loop.simps) simp
  show "running s \<noteq> 0 \<Longrightarrow> scheduler_run_cycle sched w = Inr (p, w1) \<Longrightarrow>
         schedulers w1 sched = Some s1 \<Longrightarrow> 0 \<le> sint p \<Longrightarrow>
         scheduler_run_loop sched w =
           (if sint (max_empty_cycles s1) \<le> sint (empty_cycles s1) then Some (Inr w1)
            else scheduler_run_loop sched w1)"
    using ds assms(1) by (subst scheduler_run_loop.simps) (simp add: deref_Some)
qed

lemma ex_sched_sel:
  "schedulers ex_sched_world 65536 = Some (ex_scheduler 440)"
  "schedulers ex_sched_world = [65536 \<mapsto> ex_scheduler 440]"
  "registries ex_sched_world 440 = Some \<lparr>reg_agents = 450, reg_count = 4, reg_capacity = 4\<rparr>"
  "ptr_arrays ex_sched_world 450 = Some [NULL, 461, 462, 463]"
  "agents ex_sched_world 461 = Some (ex_agent 1 471)"
  "agents ex_sched_world 462 = Some (ex_agent 2 472)"
  "agents ex_sched_world 463 = Some (ex_agent 3 473)"
  "queues ex_sched_world 471 = Some (ex_mailbox 481 1)"
  "queues ex_sched_world 472 = Some (ex_mailbox 482 2)"
  "queues ex_sched_world 473 = Some (ex_mailbox 483 3)"
  "rdtsc ex_sched_world = (\<lambda>n. of_nat n)"
  "rdtsc_reads ex_sched_world = 0"
  by (simp_all add: ex_sched_world_def ex_route_world_def)

lemma ex_stopped_sel:
  "schedulers ex_stopped_world 65536 = Some ((ex_scheduler 440)\<lparr>running := 0\<rparr>)"
  "schedulers ex_stopped_world = [65536 \<mapsto> (ex_scheduler 440)\<lparr>running := 0\<rparr>]"
  "rdtsc ex_stopped_world = (\<lambda>n. of_nat n)"
  "rdtsc_reads ex_stopped_world = 0"
  by (simp_all add: ex_stopped_world_def ex_sched_world_def ex_route_world_def)

lemma ex_scheduler_create:
  "scheduler_create 440 400 ex_route_world = (65536, ex_sched_world)"
  by (simp add: scheduler_create_def heap_allocate_def Let_def sizeof_Scheduler_def
      sizeof_FreeBlock_def ex_route_world_def ex_sched_world_def ex_scheduler_def)

lemma ex_sched_quiescent: "quiescent ex_sched_world 440"
  by (simp add: quiescent_def quiet_agent_def ex_sched_sel ex_agent_def ex_mailbox_def)

lemma ex_busy_sel:
  "schedulers ex_busy_world = [65536 \<mapsto> ex_scheduler 440]"
  "registries ex_busy_world 440 = Some \<lparr>reg_agents = 450, reg_count = 4, reg_capacity = 4\<rparr>"
  "ptr_arrays ex_busy_world = [430 \<mapsto> [472, 473], 450 \<mapsto> [NULL, 461, 462, 463],
                     481 \<mapsto> [NULL, NULL], 482 \<mapsto> [490, NULL], 483 \<mapsto> [490, NULL]]"
  "agents ex_busy_world = [461 \<mapsto> ex_agent 1 471, 462 \<mapsto> ex_agent 2 472, 463 \<mapsto> ex_agent 3 473]"
  "queues ex_busy_world = [471 \<mapsto> ex_mailbox 481 1,
                 472 \<mapsto> (ex_mailbox 482 2)\<lparr>tail := 1, q_count := 1, total_enqueued := 1\<rparr>,
                 473 \<mapsto> (ex_mailbox 483 3)\<lparr>tail := 1, q_count := 1, total_enqueued := 1\<rparr>]"
  "signals ex_busy_world = [491 \<mapsto> ex_route_signal 9, 490 \<mapsto> (ex_route_signal 7)\<lparr>ref_count := 3\<rparr>]"
  "rdtsc ex_busy_world = (\<lambda>n. of_nat n)"
  "rdtsc_reads ex_busy_world = 0"
  by (simp_all add: ex_busy_world_def ex_sched_world_def ex_route_after_def ex_route_world_def)

lemma ex_busy_cycle:
  "case scheduler_run_cycle 65536
          (ex_busy_world\<lparr>rdtsc_reads := Suc 0,
             schedulers := [65536 \<mapsto> (ex_scheduler 440)\<lparr>start_timestamp := 0\<rparr>]\<rparr>) of
     Inl f \<Rightarrow> False
   | Inr (p, w1) \<Rightarrow>
       p = 2 \<and>
       schedulers w1 65536 =
         Some ((ex_scheduler 440)\<lparr>current_phase := PHASE_ACT, cycle_count := 1,
                 total_signals_processed := 2, agents_active := 2\<rparr>) \<and>
       quiescent w1 440 \<and>
       signals w1 490 = Some ((ex_route_signal 7)\<lparr>ref_count := 1\<rparr>) \<and>
       queues w1 472 = Some ((ex_mailbox 482 2)\<lparr>head := 1, tail := 1, q_count := 0,
                               total_enqueued := 1, total_dequeued := 1\<rparr>) \<and>
       queues w1 473 = Some ((ex_mailbox 483 3)\<lparr>head := 1, tail := 1, q_count := 0,
                               total_enqueued := 1, total_dequeued := 1\<rparr>) \<and>
       rdtsc w1 = (\<lambda>n. of_nat n) \<and> rdtsc_reads w1 = Suc 0"
  by (simp add: scheduler_run_cycle_def Let_def deref_def ex_busy_sel
      array_get_def array_set_def
      signal_queue_dequeue_def signal_free_def ex_agent_def ex_mailbox_def ex_route_signal_def
      ex_scheduler_def quiescent_def quiet_agent_def)

text \<open>
  Claim C7. A scheduler fresh from \<open>scheduler_create\<close> is running, has counted no empty
  cycle and stops after 10 of them. For a live scheduler \<open>sched\<close>:

  \<^item> if \<open>running\<close> has been set to false, \<open>scheduler_run\<close> returns at once, without a cycle:
    only the two timestamps are written;
  \<^item> whenever \<open>scheduler_run\<close> returns, it leaves the scheduler with \<open>running\<close> false or
    with \<open>empty_cycles \<ge> max_empty_cycles\<close>;
  \<^item> if the scheduler is running and every mailbox of the network is empty, with
    \<open>max_empty_cycles \<ge> 0\<close> and \<open>0 \<le> empty_cycles < INT_MAX\<close>, then \<open>scheduler_run\<close> does
    return, after \<open>k = max 1 (max_empty_cycles - empty_cycles)\<close> cycles, which is at least
    one and at most \<open>max_empty_cycles + 1\<close>; it has processed no signal and has left
    all mailboxes and signals as they were;
  \<^item> whatever the mailboxes hold, \<open>scheduler_run\<close> on a scheduler with a registry comes
    to an end (with its result, or at a fault): every cycle that processes a signal takes
    it out of a mailbox, nothing puts one in, and cycles that process nothing count up
    to \<open>max_empty_cycles\<close>;
  \<^item> the loop itself, in any state: with \<open>running\<close> false it is left at once; otherwise,
    after a cycle that reports no error, it is left exactly when
    \<open>empty_cycles \<ge> max_empty_cycles\<close> holds then, and goes on to the next cycle if not.
\<close>

theorem scheduler_run_terminates:
  assumes "sched \<noteq> NULL" and "schedulers w sched = Some s"
  shows
    "(\<forall>reg rt w0 p w1. scheduler_create reg rt w0 = (p, w1) \<and> p \<noteq> NULL \<longrightarrow>
        (\<exists>s0. schedulers w1 p = Some s0 \<and> running s0 = 1 \<and> empty_cycles s0 = 0 \<and>
              max_empty_cycles s0 = 10)) \<and>
     (running s = 0 \<longrightarrow>
        scheduler_run sched w =
          Some (Inr (ucast (total_signals_processed s),
                     w\<lparr>rdtsc_reads := Suc (Suc (rdtsc_reads w)),
                       schedulers := (schedulers w)(sched \<mapsto>
                         s\<lparr>start_timestamp := rdtsc w (rdtsc_reads w),
                           end_timestamp := rdtsc w (Suc (rdtsc_reads w))\<rparr>)\<rparr>))) \<and>
     (\<forall>n w'. scheduler_run sched w = Some (Inr (n, w')) \<longrightarrow>
        (\<exists>s'. schedulers w' sched = Some s' \<and>
              (running s' = 0 \<or> sint (max_empty_cycles s') \<le> sint (empty_cycles s')))) \<and>
     (running s \<noteq> 0 \<and> quiescent w (registry s) \<and> 0 \<le> sint (max_empty_cycles s) \<and>
      0 \<le> sint (empty_cycles s) \<and> sint (empty_cycles s) < 2147483647 \<longrightarrow>
        (\<exists>k w' s'.
            scheduler_run sched w = Some (Inr (ucast (total_signals_processed s), w')) \<and>
            schedulers w' sched = Some s' \<and>
            int k = max 1 (sint (max_empty_cycles s) - sint (empty_cycles s)) \<and>
            1 \<le> k \<and> int k \<le> sint (max_empty_cycles s) + 1 \<and>
            cycle_count s' = cycle_count s + of_nat k \<and>
            empty_cycles s' = empty_cycles s + of_nat k \<and>
            total_signals_processed s' = total_signals_processed s \<and>
            queues w' = queues w \<and> signals w' = signals w \<and> ptr_arrays w' = ptr_arrays w)) \<and>
     (registry s \<noteq> NULL \<longrightarrow> (\<exists>res. scheduler_run sched w = Some res)) \<and>
     (running s = 0 \<longrightarrow> scheduler_run_loop sched w = Some (Inr w)) \<and>
     (\<forall>p w1 s1. running s \<noteq> 0 \<and> scheduler_run_cycle sched w = Inr (p, w1) \<and>
                schedulers w1 sched = Some s1 \<and> 0 \<le> sint p \<longrightarrow>
        scheduler_run_loop sched w =
          (if sint (max_empty_cycles s1) \<le> sint (empty_cycles s1) then Some (Inr w1)
           else scheduler_run_loop sched w1))"
proof (intro conjI allI impI)
  fix reg rt w0 p w1
  assume "scheduler_create reg rt w0 = (p, w1) \<and> p \<noteq> NULL"
  with scheduler_create_fresh[of reg rt w0 p w1]
  show "\<exists>s0. schedulers w1 p = Some s0 \<and> running s0 = 1 \<and> empty_cycles s0 = 0 \<and>
              max_empty_cycles s0 = 10" by blast
next
  assume "running s = 0"
  thus "scheduler_run sched w =
          Some (Inr (ucast (total_signals_processed s),
                     w\<lparr>rdtsc_reads := Suc (Suc (rdtsc_reads w)),
                       schedulers := (schedulers w)(sched \<mapsto>
                         s\<lparr>start_timestamp := rdtsc w (rdtsc_reads w),
                           end_timestamp := rdtsc w (Suc (rdtsc_reads w))\<rparr>)\<rparr>))"
    by (rule run_stopped[OF assms])
next
  fix n w'
  assume "scheduler_run sched w = Some (Inr (n, w'))"
  thus "\<exists>s'. schedulers w' sched = Some s' \<and>
              (running s' = 0 \<or> sint (max_empty_cycles s') \<le> sint (empty_cycles s'))"
    using assms(1) by (rule run_exit)
next
  assume h: "running s \<noteq> 0 \<and> quiescent w (registry s) \<and> 0 \<le> sint (max_empty_cycles s) \<and>
      0 \<le> sint (empty_cycles s) \<and> sint (empty_cycles s) < 2147483647"
  define k where "k = nat (max 1 (sint (max_empty_cycles s) - sint (empty_cycles s)))"
  from h have r: "running s \<noteq> 0" and q: "quiescent w (registry s)"
    and e: "sint (empty_cycles s) < 2147483647" by simp_all
  from run_quiet[OF assms r q e k_def] obtain ph where
    run: "scheduler_run sched w =
           Some (Inr (ucast (total_signals_processed s),
                      w\<lparr>rdtsc_reads := Suc (Suc (rdtsc_reads w)),
                        schedulers := (schedulers w)(sched \<mapsto>
                          s\<lparr>start_timestamp := rdtsc w (rdtsc_reads w),
                            current_phase := ph,
                            cycle_count := cycle_count s + of_nat k,
                            empty_cycles := empty_cycles s + of_nat k,
                            end_timestamp := rdtsc w (Suc (rdtsc_reads w))\<rparr>)\<rparr>))"
    by blast
  have k1: "int k = max 1 (sint (max_empty_cycles s) - sint (empty_cycles s))"
    by (simp add: k_def)
  have k2: "1 \<le> k" by (simp add: k_def)
  have k3: "int k \<le> sint (max_empty_cycles s) + 1" using h k1 by simp
  show "\<exists>k w' s'.
            scheduler_run sched w = Some (Inr (ucast (total_signals_processed s), w')) \<and>
            schedulers w' sched = Some s' \<and>
            int k = max 1 (sint (max_empty_cycles s) - sint (empty_cycles s)) \<and>
            1 \<le> k \<and> int k \<le> sint (max_empty_cycles s) + 1 \<and>
            cycle_count s' = cycle_count s + of_nat k \<and>
            empty_cycles s' = empty_cycles s + of_nat k \<and>
            total_signals_processed s' = total_signals_processed s \<and>
            queues w' = queues w \<and> signals w' = signals w \<and> ptr_arrays w' = ptr_arrays w"
    apply (rule exI[of _ k])
    apply (intro exI conjI)
              apply (rule run)
             apply simp
            apply (rule k1)
           apply (rule k2)
          apply (rule k3)
         apply simp_all
    done
next
  assume "registry s \<noteq> NULL"
  with assms show "\<exists>res. scheduler_run sched w = Some res" by (rule run_terminates)
next
  assume "running s = 0"
  then show "scheduler_run_loop sched w = Some (Inr w)" by (rule run_loop_rules(1)[OF assms])
next
  fix p w1 s1
  assume "running s \<noteq> 0 \<and> scheduler_run_cycle sched w = Inr (p, w1) \<and>
                schedulers w1 sched = Some s1 \<and> 0 \<le> sint p"
  then show "scheduler_run_loop sched w =
          (if sint (max_empty_cycles s1) \<le> sint (empty_cycles s1) then Some (Inr w1)
           else scheduler_run_loop sched w1)"
    using run_loop_rules(2)[OF assms] by blast
qed

theorem scheduler_run_terminates_witness:
  "scheduler_create 440 400 ex_route_world = (65536, ex_sched_world) \<and>
   (\<exists>w' s'. scheduler_run 65536 ex_sched_world = Some (Inr (0, w')) \<and>
       schedulers w' 65536 = Some s' \<and> cycle_count s' = 10 \<and> empty_cycles s' = 10 \<and>
       total_signals_processed s' = 0 \<and> queues w' = queues ex_sched_world) \<and>
   scheduler_run 65536 ex_stopped_world =
     Some (Inr (0, ex_stopped_world\<lparr>rdtsc_reads := 2,
                    schedulers := [65536 \<mapsto> (ex_scheduler 440)\<lparr>running := 0,
                                      start_timestamp := 0, end_timestamp := 1\<rparr>]\<rparr>)) \<and>
   (\<exists>w' s'. scheduler_run 65536 ex_busy_world = Some (Inr (2, w')) \<and>
       schedulers w' 65536 = Some s' \<and> cycle_count s' = 11 \<and> empty_cycles s' = 10 \<and>
       total_signals_processed s' = 2 \<and>
       signals w' 490 = Some ((ex_route_signal 7)\<lparr>ref_count := 1\<rparr>))"
proof (intro conjI)
  show "scheduler_create 440 400 ex_route_world = (65536, ex_sched_world)"
    by (rule ex_scheduler_create)
next
  have nz: "(65536::nat) \<noteq> NULL" by simp
  have "running (ex_scheduler 440) \<noteq> 0 \<and> quiescent ex_sched_world (registry (ex_scheduler 440)) \<and>
        0 \<le> sint (max_empty_cycles (ex_scheduler 440)) \<and>
        0 \<le> sint (empty_cycles (ex_scheduler 440)) \<and>
        sint (empty_cycles (ex_scheduler 440)) < 2147483647"
    using ex_sched_quiescent by (simp add: ex_scheduler_def)
  with scheduler_run_terminates[OF nz ex_sched_sel(1),
      THEN conjunct2, THEN conjunct2, THEN conjunct2, THEN conjunct1]
  obtain k w' s' where
    "scheduler_run 65536 ex_sched_world =
       Some (Inr (ucast (total_signals_processed (ex_scheduler 440)), w'))"
    "schedulers w' 65536 = Some s'"
    "int k = max 1 (sint (max_empty_cycles (ex_scheduler 440)) - sint (empty_cycles (ex_scheduler 440)))"
    "cycle_count s' = cycle_count (ex_scheduler 440) + of_nat k"
    "empty_cycles s' = empty_cycles (ex_scheduler 440) + of_nat k"
    "total_signals_processed s' = total_signals_processed (ex_scheduler 440)"
    "queues w' = queues ex_sched_world"
    by blast
  moreover from this(3) have "k = 10" by (simp add: ex_scheduler_def)
  ultimately show "\<exists>w' s'. scheduler_run 65536 ex_sched_world = Some (Inr (0, w')) \<and>
       schedulers w' 65536 = Some s' \<and> cycle_count s' = 10 \<and> empty_cycles s' = 10 \<and>
       total_signals_processed s' = 0 \<and> queues w' = queues ex_sched_world"
    by (simp add: ex_scheduler_def)
next
  have nz: "(65536::nat) \<noteq> NULL" by simp
  from scheduler_run_terminates[OF nz ex_stopped_sel(1), THEN conjunct2, THEN conjunct1]
  show "scheduler_run 65536 ex_stopped_world =
     Some (Inr (0, ex_stopped_world\<lparr>rdtsc_reads := 2,
                    schedulers := [65536 \<mapsto> (ex_scheduler 440)\<lparr>running := 0,
                                      start_timestamp := 0, end_timestamp := 1\<rparr>]\<rparr>))"
    by (simp add: ex_stopped_sel ex_scheduler_def numeral_2_eq_2)
next
  have nz: "(65536::nat) \<noteq> NULL" by simp
  define W0 where "W0 = ex_busy_world\<lparr>rdtsc_reads := Suc 0,
             schedulers := [65536 \<mapsto> (ex_scheduler 440)\<lparr>start_timestamp := 0\<rparr>]\<rparr>"
  define s0 where "s0 = (ex_scheduler 440)\<lparr>start_timestamp := 0\<rparr>"
  define s1 where "s1 = (ex_scheduler 440)\<lparr>current_phase := PHASE_ACT, cycle_count := 1,
                 total_signals_processed := 2, agents_active := 2\<rparr>"
  have s0: "schedulers W0 65536 = Some s0" by (simp add: W0_def s0_def)
  from ex_busy_cycle obtain W1 where
    c: "scheduler_run_cycle 65536 W0 = Inr (2, W1)"
    and w1: "schedulers W1 65536 = Some s1" "quiescent W1 440"
      "signals W1 490 = Some ((ex_route_signal 7)\<lparr>ref_count := 1\<rparr>)"
      "rdtsc W1 = (\<lambda>n. of_nat n)" "rdtsc_reads W1 = Suc 0"
    unfolding W0_def s1_def
    by (cases "scheduler_run_cycle 65536
          (ex_busy_world\<lparr>rdtsc_reads := Suc 0,
             schedulers := [65536 \<mapsto> (ex_scheduler 440)\<lparr>start_timestamp := 0\<rparr>]\<rparr>)") auto
  \<comment> \<open>the first cycle processes two signals and the loop goes on\<close>
  have "running s0 \<noteq> 0 \<and> scheduler_run_cycle 65536 W0 = Inr (2, W1) \<and>
        schedulers W1 65536 = Some s1 \<and> 0 \<le> sint (2 :: 32 word)"
    using c w1(1) by (simp add: s0_def ex_scheduler_def)
  with scheduler_run_terminates[OF nz s0, THEN conjunct2, THEN conjunct2, THEN conjunct2,
      THEN conjunct2, THEN conjunct2, THEN conjunct2]
  have "scheduler_run_loop 65536 W0 =
          (if sint (max_empty_cycles s1) \<le> sint (empty_cycles s1) then Some (Inr W1)
           else scheduler_run_loop 65536 W1)" by blast
  then have l0: "scheduler_run_loop 65536 W0 = scheduler_run_loop 65536 W1"
    by (simp add: s1_def ex_scheduler_def)
  \<comment> \<open>the network is now at rest: ten empty cycles follow\<close>
  have "\<exists>ph. scheduler_run_loop 65536 W1 =
           Some (Inr (W1\<lparr>schedulers := (schedulers W1)(65536 \<mapsto>
                        s1\<lparr>current_phase := ph, cycle_count := cycle_count s1 + of_nat 10,
                          empty_cycles := empty_cycles s1 + of_nat 10\<rparr>)\<rparr>))"
    by (rule run_loop_quiet[OF nz w1(1)]) (use w1(2) in \<open>simp_all add: s1_def ex_scheduler_def\<close>)
  then obtain ph where l1: "scheduler_run_loop 65536 W1 =
           Some (Inr (W1\<lparr>schedulers := (schedulers W1)(65536 \<mapsto>
                        s1\<lparr>current_phase := ph, cycle_count := cycle_count s1 + of_nat 10,
                          empty_cycles := empty_cycles s1 + of_nat 10\<rparr>)\<rparr>))" by blast
  have "scheduler_run 65536 ex_busy_world =
          Some (Inr (2, W1\<lparr>rdtsc_reads := Suc (Suc 0),
                           schedulers := (schedulers W1)(65536 \<mapsto>
                             s1\<lparr>current_phase := ph, cycle_count := 11, empty_cycles := 10,
                                end_timestamp := 1\<rparr>)\<rparr>))"
    using l0 l1 w1(4,5)
    by (simp add: scheduler_run_def deref_def get_timestamp_def Let_def ex_busy_sel W0_def
        s1_def ex_scheduler_def)
  then show "\<exists>w' s'. scheduler_run 65536 ex_busy_world = Some (Inr (2, w')) \<and>
       schedulers w' 65536 = Some s' \<and> cycle_count s' = 11 \<and> empty_cycles s' = 10 \<and>
       total_signals_processed s' = 2 \<and>
       signals w' 490 = Some ((ex_route_signal 7)\<lparr>ref_count := 1\<rparr>)"
    using w1(3) by (simp add: s1_def)
qed

subsection \<open>One scheduler cycle and the dispatch table\<close>

lemma ex_cycle_sel:
  "schedulers ex_cycle_world = [300 \<mapsto> ex_scheduler 440]"
  "registries ex_cycle_world = [440 \<mapsto> \<lparr>reg_agents = 450, reg_count = 1, reg_capacity = 1\<rparr>]"
  "ptr_arrays ex_cycle_world = [450 \<mapsto> [461], 481 \<mapsto> [700, NULL]]"
  "agents ex_cycle_world = [461 \<mapsto> (ex_agent 1 471)\<lparr>state_ptr := 900, dispatch_table := 500\<rparr>]"
  "queues ex_cycle_world =
     [471 \<mapsto> (ex_mailbox 481 1)\<lparr>tail := 1, q_count := 1, total_enqueued := 1\<rparr>]"
  "signals ex_cycle_world = signals ex_dispatch_world"
  "dispatch_tables ex_cycle_world = dispatch_tables ex_dispatch_world"
  "dispatch_entries ex_cycle_world = dispatch_entries ex_dispatch_world"
  "user ex_cycle_world = 0"
  by (simp_all add: ex_cycle_world_def ex_dispatch_world_def)

lemma ex_cycle_loop_end:
  "cycle_loop sched \<lparr>reg_agents = 450, reg_count = 1, reg_capacity = 1\<rparr> (Suc 0) sp w = Inr (sp, w)"
  by (subst cycle_loop.simps) simp

lemma ex_cycle_run:
  "case scheduler_run_cycle 300 ex_cycle_world of
     Inl f \<Rightarrow> False
   | Inr (n, w') \<Rightarrow>
       n = 1 \<and>
       queues w' 471 = Some ((ex_mailbox 481 1)\<lparr>head := 1, tail := 1, q_count := 0,
                               total_enqueued := 1, total_dequeued := 1\<rparr>) \<and>
       ptr_arrays w' 481 = Some [NULL, NULL] \<and>
       signals w' 700 = None \<and>
       schedulers w' 300 = Some ((ex_scheduler 440)\<lparr>current_phase := PHASE_ACT, cycle_count := 1,
                               total_signals_processed := 1, agents_active := 1\<rparr>) \<and>
       dispatch_tables w' 500 = Some ex_table \<and>
       user w' = 0"
  by (simp add: scheduler_run_cycle_def Let_def deref_def ex_cycle_sel ex_dispatch_sel
      cycle_loop.simps[of _ _ 0] ex_cycle_loop_end array_get_def array_set_def
      signal_queue_dequeue_def signal_free_def signal_free_payload_def signal_free_header_def
      heap_free_def release_def ex_agent_def ex_mailbox_def ex_signal_of_def ex_scheduler_def
      SIGNAL_FLAG_HEAP_ALLOCATED_def SIGNAL_FLAG_OWNS_PAYLOAD_def sizeof_Signal_def
      sizeof_FreeBlock_def QUEUE_FLAG_ACTIVE_def)


lemma ex_cycle_dispatch:
  "dispatch_invoke ex_prog 500 700 ex_cycle_world =
     Inr (DISPATCH_OK,
          ex_cycle_world\<lparr>dispatch_tables := (dispatch_tables ex_cycle_world)(500 \<mapsto>
             ex_table\<lparr>lookup_count := 1, hit_count := 1\<rparr>), user := 1\<rparr>)"
proof -
  have t: "dispatch_tables ex_cycle_world 500 = Some ex_table"
    and sg: "signals ex_cycle_world 700 = Some (ex_signal_of 1)"
    and es: "dispatch_entries ex_cycle_world (dt_entries ex_table) = Some ex_entries"
    by (simp_all add: ex_cycle_sel ex_dispatch_sel ex_table_def)
  have hit: "active_match (ex_entries ! 0) (ucast (sig_frequency_id (ex_signal_of 1)))"
    by (simp add: ex_entries_nth active_match_def ex_signal_of_def)
  have "dispatch_invoke_with_state ex_prog 500 900 700 ex_cycle_world =
     Inr (DISPATCH_OK,
          ex_cycle_world\<lparr>dispatch_tables := (dispatch_tables ex_cycle_world)(500 \<mapsto>
             ex_table\<lparr>lookup_count := 1, hit_count := 1\<rparr>), user := 1\<rparr>)"
    by (subst dispatch_hit_eq[of 500 ex_cycle_world ex_table 700 "ex_signal_of 1" ex_entries 0,
          OF _ t _ sg _ es _ _ hit])
       (simp_all add: ex_table_def ex_entries_nth ex_calls array_get_def deref_def
          ex_cycle_sel ex_dispatch_sel)
  thus ?thesis
    using t by (simp add: dispatch_invoke_def deref_def ex_table_def)
qed

text \<open>
  Claim C1, on the example \<open>ex_cycle_world\<close>: agent 461 has the dispatch table 500, in
  which a handler for kind 1 is registered, and its mailbox 471 holds the signal 700 of
  kind 1. One \<open>scheduler_run_cycle\<close> reports one signal processed: the signal has been
  dequeued (the mailbox is empty, its slot cleared) and released (the last reference:
  the signal is freed), and the scheduler is in phase ACT with its counters moved. But
  the dispatch table has not been consulted, its lookup counter is still 0, and the
  application state is untouched, whereas \<open>dispatch_invoke\<close> with that table on that
  signal counts a lookup and a hit and runs the handler, which increments the
  application counter. The cycle does not invoke the agent's dispatch table.
\<close>

theorem scheduler_cycle_skips_dispatch:
  "(\<exists>w'. scheduler_run_cycle 300 ex_cycle_world = Inr (1, w') \<and>
         queues w' 471 = Some ((ex_mailbox 481 1)\<lparr>head := 1, tail := 1, q_count := 0,
                                 total_enqueued := 1, total_dequeued := 1\<rparr>) \<and>
         ptr_arrays w' 481 = Some [NULL, NULL] \<and>
         signals w' 700 = None \<and>
         schedulers w' 300 = Some ((ex_scheduler 440)\<lparr>current_phase := PHASE_ACT,
                                 cycle_count := 1, total_signals_processed := 1,
                                 agents_active := 1\<rparr>) \<and>
         dispatch_tables w' 500 = Some ex_table \<and> lookup_count ex_table = 0 \<and>
         user w' = 0) \<and>
   dispatch_invoke ex_prog 500 700 ex_cycle_world =
     Inr (DISPATCH_OK,
          ex_cycle_world\<lparr>dispatch_tables := (dispatch_tables ex_cycle_world)(500 \<mapsto>
             ex_table\<lparr>lookup_count := 1, hit_count := 1\<rparr>), user := 1\<rparr>)"
proof (rule conjI)
  from ex_cycle_run
  show "\<exists>w'. scheduler_run_cycle 300 ex_cycle_world = Inr (1, w') \<and>
         queues w' 471 = Some ((ex_mailbox 481 1)\<lparr>head := 1, tail := 1, q_count := 0,
                                 total_enqueued := 1, total_dequeued := 1\<rparr>) \<and>
         ptr_arrays w' 481 = Some [NULL, NULL] \<and>
         signals w' 700 = None \<and>
         schedulers w' 300 = Some ((ex_scheduler 440)\<lparr>current_phase := PHASE_ACT,
                                 cycle_count := 1, total_signals_processed := 1,
                                 agents_active := 1\<rparr>) \<and>
         dispatch_tables w' 500 = Some ex_table \<and> lookup_count ex_table = 0 \<and>
         user w' = 0"
    by (cases "scheduler_run_cycle 300 ex_cycle_world") (auto simp: ex_table_def)
next
  show "dispatch_invoke ex_prog 500 700 ex_cycle_world =
     Inr (DISPATCH_OK,
          ex_cycle_world\<lparr>dispatch_tables := (dispatch_tables ex_cycle_world)(500 \<mapsto>
             ex_table\<lparr>lookup_count := 1, hit_count := 1\<rparr>), user := 1\<rparr>)"
    by (rule ex_cycle_dispatch)
qed

end
